theory Spec2Isabelle
  imports Complex_Main
begin

section \<open>Doubles\<close>

text \<open>
  A \<open>double\<close> is a finite value, \<open>+inf\<close>, \<open>-inf\<close> or NaN. A finite value is a real number:
  the rounding of a finite result to 53 bits and the sign of zero are not modelled.
  Overflow and underflow are: an exact result of magnitude at least \<open>2^1024 - 2^970\<close>
  (half an ulp above the largest double) is an infinity, and one of magnitude at most
  \<open>2^-1075\<close> (half the smallest positive double) is zero.
\<close>

datatype dbl = Fin real | PInf | NInf | NaN

definition dbl_of :: "real \<Rightarrow> dbl" where
  "dbl_of r =
     (if 2 ^ 1024 - 2 ^ 970 \<le> r then PInf
      else if r \<le> - (2 ^ 1024 - 2 ^ 970) then NInf
      else if \<bar>r\<bar> \<le> 1 / 2 ^ 1075 then Fin 0
      else Fin r)"

fun isFin :: "dbl \<Rightarrow> bool" where
  "isFin (Fin a) = True"
| "isFin x = False"

text \<open>The arithmetic of IEEE 754 on these values.\<close>

fun dneg :: "dbl \<Rightarrow> dbl" where
  "dneg (Fin a) = Fin (- a)"
| "dneg PInf = NInf"
| "dneg NInf = PInf"
| "dneg NaN = NaN"

fun dadd :: "dbl \<Rightarrow> dbl \<Rightarrow> dbl" where
  "dadd (Fin a) (Fin b) = dbl_of (a + b)"
| "dadd NaN y = NaN"
| "dadd x NaN = NaN"
| "dadd PInf NInf = NaN"
| "dadd NInf PInf = NaN"
| "dadd PInf y = PInf"
| "dadd NInf y = NInf"
| "dadd (Fin a) y = y"

definition dsub :: "dbl \<Rightarrow> dbl \<Rightarrow> dbl" where
  "dsub x y = dadd x (dneg y)"

fun dmul :: "dbl \<Rightarrow> dbl \<Rightarrow> dbl" where
  "dmul (Fin a) (Fin b) = dbl_of (a * b)"
| "dmul NaN y = NaN"
| "dmul x NaN = NaN"
| "dmul (Fin a) PInf = (if a = 0 then NaN else if 0 < a then PInf else NInf)"
| "dmul (Fin a) NInf = (if a = 0 then NaN else if 0 < a then NInf else PInf)"
| "dmul PInf (Fin b) = (if b = 0 then NaN else if 0 < b then PInf else NInf)"
| "dmul NInf (Fin b) = (if b = 0 then NaN else if 0 < b then NInf else PInf)"
| "dmul PInf PInf = PInf"
| "dmul PInf NInf = NInf"
| "dmul NInf PInf = NInf"
| "dmul NInf NInf = PInf"

fun ddiv :: "dbl \<Rightarrow> dbl \<Rightarrow> dbl" where
  "ddiv (Fin a) (Fin b) =
     (if b = 0 then (if a = 0 then NaN else if 0 < a then PInf else NInf)
      else dbl_of (a / b))"
| "ddiv NaN y = NaN"
| "ddiv x NaN = NaN"
| "ddiv (Fin a) y = Fin 0"
| "ddiv PInf (Fin b) = (if 0 \<le> b then PInf else NInf)"
| "ddiv NInf (Fin b) = (if 0 \<le> b then NInf else PInf)"
| "ddiv x y = NaN"

fun dabs :: "dbl \<Rightarrow> dbl" where
  "dabs (Fin a) = Fin \<bar>a\<bar>"
| "dabs PInf = PInf"
| "dabs NInf = PInf"
| "dabs NaN = NaN"

text \<open>
  The comparisons: \<open>dless x y\<close> is \<open>x < y\<close>, \<open>dle x y\<close> is \<open>x <= y\<close>, \<open>deq x y\<close> is
  \<open>x == y\<close>. Every comparison with NaN is false, so \<open>x >= y\<close> (\<open>dle y x\<close>) is not the
  negation of \<open>x < y\<close>.
\<close>

fun dless :: "dbl \<Rightarrow> dbl \<Rightarrow> bool" where
  "dless (Fin a) (Fin b) = (a < b)"
| "dless NaN y = False"
| "dless x NaN = False"
| "dless x NInf = False"
| "dless NInf y = True"
| "dless PInf y = False"
| "dless (Fin a) PInf = True"

fun dle :: "dbl \<Rightarrow> dbl \<Rightarrow> bool" where
  "dle (Fin a) (Fin b) = (a \<le> b)"
| "dle NaN y = False"
| "dle x NaN = False"
| "dle NInf y = True"
| "dle x PInf = True"
| "dle x y = False"

fun deq :: "dbl \<Rightarrow> dbl \<Rightarrow> bool" where
  "deq NaN y = False"
| "deq x NaN = False"
| "deq x y = (x = y)"

text \<open>
  \<open>std::sin\<close>, \<open>std::cos\<close>, \<open>std::tan\<close> and \<open>std::log\<close>: the real function on a finite
  argument in the domain, the value of the C library elsewhere. \<open>std::pow\<close> is a
  parameter \<open>powf\<close> of the functions that call it.
\<close>

fun dsin :: "dbl \<Rightarrow> dbl" where
  "dsin (Fin a) = Fin (sin a)"
| "dsin x = NaN"

fun dcos :: "dbl \<Rightarrow> dbl" where
  "dcos (Fin a) = Fin (cos a)"
| "dcos x = NaN"

fun dtan :: "dbl \<Rightarrow> dbl" where
  "dtan (Fin a) = Fin (tan a)"
| "dtan x = NaN"

fun dlog :: "dbl \<Rightarrow> dbl" where
  "dlog (Fin a) = (if 0 < a then Fin (ln a) else if a = 0 then NInf else NaN)"
| "dlog PInf = PInf"
| "dlog x = NaN"

text \<open>
  The literal \<open>1e-12\<close> of the source is the double nearest to it,
  \<open>4951760157141521 / 2^92\<close>, which is a little less than \<open>10^-12\<close>.
\<close>

definition lit_1e_12 :: dbl where
  "lit_1e_12 = Fin (4951760157141521 / 2 ^ 92)"

section \<open>Expression tree nodes (ppe.h, struct Node)\<close>

text \<open>
  A \<open>Node*\<close> is either the null pointer or points to a struct with the fields
  \<open>kind\<close>, \<open>ch\<close>, \<open>num\<close>, \<open>l\<close>, \<open>r\<close>. Every tree of the program is owned by exactly one
  holder, so a pointer is modelled by the value it points to: \<open>Null\<close> is \<open>nullptr\<close> and
  \<open>Node kind ch num l r\<close> is a pointer to a struct with these five fields.
\<close>

datatype node = Null | Node char char dbl node node

text \<open>\<open>cloneTree\<close>: the deep copy, field by field.\<close>

fun cloneTree :: "node \<Rightarrow> node" where
  "cloneTree Null = Null"
| "cloneTree (Node k c x lt rt) = Node k c x (cloneTree lt) (cloneTree rt)"

definition funcCodeFromName :: "string \<Rightarrow> char" where
  "funcCodeFromName name =
     (if name = ''sin'' then CHR ''s''
      else if name = ''cos'' then CHR ''c''
      else if name = ''tan'' then CHR ''t''
      else if name = ''ln'' then CHR ''l''
      else CHR 0x00)"

definition funcNameFromCode :: "char \<Rightarrow> string" where
  "funcNameFromCode c =
     (if c = CHR ''s'' then ''sin''
      else if c = CHR ''c'' then ''cos''
      else if c = CHR ''t'' then ''tan''
      else if c = CHR ''l'' then ''ln''
      else ''func?'')"

text \<open>The constructors: \<open>new Node()\<close> gives kind \<open>'N'\<close>, \<open>ch = 0\<close>, \<open>num = 0\<close> and null children.\<close>

definition makeNum :: "dbl \<Rightarrow> node" where
  "makeNum v = Node (CHR ''N'') (CHR 0x00) v Null Null"

definition makeVar :: "char \<Rightarrow> node" where
  "makeVar c = Node (CHR ''V'') c (Fin 0) Null Null"

definition makeOp :: "char \<Rightarrow> node \<Rightarrow> node \<Rightarrow> node" where
  "makeOp op L R = Node (CHR ''O'') op (Fin 0) L R"

definition makeFunc :: "string \<Rightarrow> node \<Rightarrow> node" where
  "makeFunc name child = Node (CHR ''F'') (funcCodeFromName name) (Fin 0) child Null"

definition isOp :: "char \<Rightarrow> bool" where
  "isOp c \<longleftrightarrow> c = CHR ''+'' \<or> c = CHR ''-'' \<or> c = CHR ''*'' \<or> c = CHR ''/'' \<or> c = CHR ''^''"

text \<open>\<open>isNumLeaf(p, v)\<close>: \<open>Some v\<close> when it returns true and has written \<open>v\<close>.\<close>

fun isNumLeaf :: "node \<Rightarrow> dbl option" where
  "isNumLeaf Null = None"
| "isNumLeaf (Node k c x lt rt) = (if k \<noteq> CHR ''N'' then None else Some x)"

section \<open>The tree object (struct ExprTree)\<close>

record ExprTree =
  root :: node
  postfixRaw :: string
  infixCache :: string

text \<open>
  The cast \<open>(int)x\<close> of a double truncates towards zero. For a value that does not fit
  a 32-bit \<open>int\<close> (NaN and the infinities included) the C++ standard leaves the cast
  undefined; the conversion instruction of the x86 target gives \<open>INT_MIN\<close>.
\<close>

definition int_cast :: "dbl \<Rightarrow> int" where
  "int_cast x =
     (case x of
        Fin r \<Rightarrow>
          if - (2 ^ 31) - 1 < r \<and> r < 2 ^ 31 then (if 0 \<le> r then \<lfloor>r\<rfloor> else \<lceil>r\<rceil>)
          else - (2 ^ 31)
      | _ \<Rightarrow> - (2 ^ 31))"


text \<open>
  \<open>toPostfix\<close>: the local function \<open>dfs\<close> appends to \<open>result\<close>; here it returns what it
  appends. The text that \<open>std::ostringstream\<close> prints for a double is the parameter
  \<open>oss\<close> (the C++ library is not part of the repository).
\<close>

fun toPostfix_dfs :: "(dbl \<Rightarrow> string) \<Rightarrow> node \<Rightarrow> string" where
  "toPostfix_dfs oss Null = []"
| "toPostfix_dfs oss (Node k c x lt rt) =
     (if k = CHR ''N'' then
        (if deq x (Fin (real_of_int (int_cast x))) \<and> dle (Fin 0) x \<and> dle x (Fin 9)
         then [char_of (48 + int_cast x)]
         else ''['' @ oss x @ '']'')
      else if k = CHR ''V'' then [c]
      else if k = CHR ''F'' then toPostfix_dfs oss lt @ funcNameFromCode c
      else toPostfix_dfs oss lt @ toPostfix_dfs oss rt @ [c])"

definition toPostfix :: "(dbl \<Rightarrow> string) \<Rightarrow> ExprTree \<Rightarrow> string" where
  "toPostfix oss T = toPostfix_dfs oss (root T)"

fun toInfix_dfs :: "(dbl \<Rightarrow> string) \<Rightarrow> node \<Rightarrow> string" where
  "toInfix_dfs oss Null = []"
| "toInfix_dfs oss (Node k c x lt rt) =
     (if k = CHR ''N'' then oss x
      else if k = CHR ''V'' then [c]
      else if k = CHR ''F'' then funcNameFromCode c @ ''('' @ toInfix_dfs oss lt @ '')''
      else ''('' @ toInfix_dfs oss lt @ '' '' @ [c] @ '' '' @ toInfix_dfs oss rt @ '')'')"

definition toInfix :: "(dbl \<Rightarrow> string) \<Rightarrow> ExprTree \<Rightarrow> string" where
  "toInfix oss T = toInfix_dfs oss (root T)"

subsection \<open>buildFromPostfixChars\<close>

text \<open>
  The three failures of the parser; the source reports them as messages
  ("not enough operands", "illegal character: c", "final stack size is not 1").
\<close>

datatype parse_error = InsufficientOperands | InvalidToken char | MalformedExpression

definition isSpace :: "char \<Rightarrow> bool" where
  "isSpace c \<longleftrightarrow> c = CHR '' '' \<or> c = CHR 0x09 \<or> c = CHR 0x0D \<or> c = CHR 0x0A"

definition isDigit :: "char \<Rightarrow> bool" where
  "isDigit c \<longleftrightarrow> (48::nat) \<le> of_char c \<and> of_char c \<le> (57::nat)"

definition isLower :: "char \<Rightarrow> bool" where
  "isLower c \<longleftrightarrow> (97::nat) \<le> of_char c \<and> of_char c \<le> (122::nat)"

text \<open>
  The loop over the characters of \<open>s\<close>. The stack \<open>st\<close> is a list whose head is
  \<open>st.back()\<close>. A failure returns at once.
\<close>

fun parseLoop :: "string \<Rightarrow> node list \<Rightarrow> parse_error + node list" where
  "parseLoop [] st = Inr st"
| "parseLoop (c # cs) st =
     (if isSpace c then parseLoop cs st
      else if isDigit c then
        parseLoop cs (Node (CHR ''N'') (CHR 0x00) (Fin (real (of_char c - 48))) Null Null # st)
      else if isLower c then
        parseLoop cs (Node (CHR ''V'') c (Fin 0) Null Null # st)
      else if isOp c then
        (case st of
           b # a # rest \<Rightarrow> parseLoop cs (Node (CHR ''O'') c (Fin 0) a b # rest)
         | _ \<Rightarrow> Inl InsufficientOperands)
      else Inl (InvalidToken c))"

definition buildFromPostfixChars :: "(dbl \<Rightarrow> string) \<Rightarrow> string \<Rightarrow> parse_error + ExprTree" where
  "buildFromPostfixChars oss s =
     (case parseLoop s [] of
        Inl e \<Rightarrow> Inl e
      | Inr st \<Rightarrow>
          (case st of
             [t] \<Rightarrow> Inr \<lparr>root = t, postfixRaw = s, infixCache = toInfix_dfs oss t\<rparr>
           | _ \<Rightarrow> Inl MalformedExpression))"

section \<open>Structural equality (treesEqual)\<close>

fun treesEqual :: "node \<Rightarrow> node \<Rightarrow> bool" where
  "treesEqual Null Null = True"
| "treesEqual Null (Node k c x lt rt) = False"
| "treesEqual (Node k c x lt rt) Null = False"
| "treesEqual (Node ka ca xa la ra) (Node kb cb xb lb rb) =
     (if ka \<noteq> kb then False
      else if ka = CHR ''N'' then dless (dabs (dsub xa xb)) lit_1e_12
      else if ka = CHR ''V'' then ca = cb
      else if ka = CHR ''F'' then (if ca \<noteq> cb then False else treesEqual la lb)
      else if ca \<noteq> cb then False
      else treesEqual la lb \<and> treesEqual ra rb)"


text \<open>
  \<open>finiteNums t\<close>: every number that \<open>treesEqual\<close> reads in \<open>t\<close> is finite (neither an
  infinity nor NaN).
\<close>

fun finiteNums :: "node \<Rightarrow> bool" where
  "finiteNums Null = True"
| "finiteNums (Node k c x lt rt) =
     (if k = CHR ''N'' then isFin x
      else if k = CHR ''V'' then True
      else if k = CHR ''F'' then finiteNums lt
      else finiteNums lt \<and> finiteNums rt)"

section \<open>Evaluation (ExprTree::eval)\<close>

text \<open>
  The failures of \<open>eval\<close>; the source reports them as messages ("empty node",
  "variable not assigned: c", "the argument of ln must be > 0", "unknown function node",
  "division by zero", "unknown operator: c").
\<close>

datatype eval_error =
  NullNode | UnboundVariable char | DomainError | UnknownFunction | DivisionByZero
  | UnknownOperator char

text \<open>\<open>std::pow\<close> is the parameter \<open>powf\<close>.\<close>

fun eval_dfs :: "(dbl \<Rightarrow> dbl \<Rightarrow> dbl) \<Rightarrow> (char \<rightharpoonup> dbl) \<Rightarrow> node \<Rightarrow> eval_error + dbl" where
  "eval_dfs powf vars Null = Inl NullNode"
| "eval_dfs powf vars (Node k c v lt rt) =
     (if k = CHR ''N'' then Inr v
      else if k = CHR ''V'' then
        (case vars c of None \<Rightarrow> Inl (UnboundVariable c) | Some w \<Rightarrow> Inr w)
      else if k = CHR ''F'' then
        (case eval_dfs powf vars lt of
           Inl e \<Rightarrow> Inl e
         | Inr x \<Rightarrow>
             if c = CHR ''s'' then Inr (dsin x)
             else if c = CHR ''c'' then Inr (dcos x)
             else if c = CHR ''t'' then Inr (dtan x)
             else if c = CHR ''l'' then (if dle x (Fin 0) then Inl DomainError else Inr (dlog x))
             else Inl UnknownFunction)
      else
        (case eval_dfs powf vars lt of
           Inl e \<Rightarrow> Inl e
         | Inr x \<Rightarrow>
             (case eval_dfs powf vars rt of
                Inl e \<Rightarrow> Inl e
              | Inr y \<Rightarrow>
                  if c = CHR ''+'' then Inr (dadd x y)
                  else if c = CHR ''-'' then Inr (dsub x y)
                  else if c = CHR ''*'' then Inr (dmul x y)
                  else if c = CHR ''/'' then
                    (if dless (dabs y) lit_1e_12 then Inl DivisionByZero else Inr (ddiv x y))
                  else if c = CHR ''^'' then Inr (powf x y)
                  else Inl (UnknownOperator c))))"

definition eval :: "(dbl \<Rightarrow> dbl \<Rightarrow> dbl) \<Rightarrow> ExprTree \<Rightarrow> (char \<rightharpoonup> dbl) \<Rightarrow> eval_error + dbl" where
  "eval powf T vars = eval_dfs powf vars (root T)"

section \<open>Copying and composing trees\<close>

text \<open>A default-constructed \<open>ExprTree\<close>.\<close>

definition emptyTree :: ExprTree where
  "emptyTree = \<lparr>root = Null, postfixRaw = [], infixCache = []\<rparr>"

definition clone :: "ExprTree \<Rightarrow> ExprTree" where
  "clone T = \<lparr>root = cloneTree (root T), postfixRaw = postfixRaw T, infixCache = infixCache T\<rparr>"

text \<open>
  \<open>Compose\<close> returns a tree and may write a message to \<open>*err\<close>. The content of \<open>*err\<close>
  is threaded through: \<open>None\<close> is the caller's untouched string. The two messages are
  "P is not a legal binary operator" and "E1 or E2 is empty".
\<close>

datatype compose_msg = InvalidOperator | EmptyOperand

definition Compose ::
  "ExprTree \<Rightarrow> ExprTree \<Rightarrow> char \<Rightarrow> compose_msg option \<Rightarrow> ExprTree \<times> compose_msg option" where
  "Compose E1 E2 op err =
     (if \<not> isOp op then (emptyTree, Some InvalidOperator)
      else if root E1 = Null \<or> root E2 = Null then (emptyTree, Some EmptyOperand)
      else (\<lparr>root = Node (CHR ''O'') op (Fin 0) (cloneTree (root E1)) (cloneTree (root E2)),
             postfixRaw = postfixRaw E1 @ postfixRaw E2 @ [op],
             infixCache = []\<rparr>, err))"

section \<open>Differentiation (derivNode, DerivativeTree)\<close>

text \<open>
  The messages that \<open>derivNode\<close> and \<open>DerivativeTree\<close> write to \<open>*err\<close>: "derivative of
  this function is not supported", "power node lacks a sub-expression", "unknown
  operator, cannot differentiate", "empty expression". The content of \<open>*err\<close> is
  threaded through the calls in the order of the source.
\<close>

datatype deriv_msg = UnsupportedFunction | PowerMissingOperand | UnsupportedOperator | EmptyExpression

fun derivNode :: "node \<Rightarrow> char \<Rightarrow> deriv_msg option \<Rightarrow> node \<times> deriv_msg option" where
  "derivNode Null var err = (Null, err)"
| "derivNode (Node k c x u v) var err =
     (if k = CHR ''N'' then (makeNum (Fin 0), err)
      else if k = CHR ''V'' then (makeNum (Fin (if c = var then 1 else 0)), err)
      else if k = CHR ''F'' then
        (case derivNode u var err of (du, e1) \<Rightarrow>
           if du = Null then (makeNum (Fin 0), e1)
           else if c = CHR ''s'' then
             (makeOp (CHR ''*'') (makeFunc ''cos'' (cloneTree u)) du, e1)
           else if c = CHR ''c'' then
             (makeOp (CHR ''*'')
                (makeOp (CHR ''*'') (makeNum (Fin (- 1))) (makeFunc ''sin'' (cloneTree u))) du, e1)
           else if c = CHR ''t'' then
             (makeOp (CHR ''*'')
                (makeOp (CHR ''/'') (makeNum (Fin 1))
                   (makeOp (CHR ''^'') (makeFunc ''cos'' (cloneTree u)) (makeNum (Fin 2)))) du, e1)
           else if c = CHR ''l'' then (makeOp (CHR ''/'') du (cloneTree u), e1)
           else (makeNum (Fin 0), Some UnsupportedFunction))
      else if c = CHR ''+'' \<or> c = CHR ''-'' then
        (case derivNode u var err of (dl, e1) \<Rightarrow>
           case derivNode v var e1 of (dr, e2) \<Rightarrow> (makeOp c dl dr, e2))
      else if c = CHR ''*'' then
        (case derivNode u var err of (du, e1) \<Rightarrow>
           case derivNode v var e1 of (dv, e2) \<Rightarrow>
             (makeOp (CHR ''+'')
                (makeOp (CHR ''*'') du (cloneTree v))
                (makeOp (CHR ''*'') (cloneTree u) dv), e2))
      else if c = CHR ''/'' then
        (case derivNode u var err of (du, e1) \<Rightarrow>
           case derivNode v var e1 of (dv, e2) \<Rightarrow>
             (makeOp (CHR ''/'')
                (makeOp (CHR ''-'')
                   (makeOp (CHR ''*'') du (cloneTree v))
                   (makeOp (CHR ''*'') (cloneTree u) dv))
                (makeOp (CHR ''^'') (cloneTree v) (makeNum (Fin 2))), e2))
      else if c = CHR ''^'' then
        (case v of
           Null \<Rightarrow> (makeNum (Fin 0), Some PowerMissingOperand)
         | Node kv cv n vl vr \<Rightarrow>
             if u = Null then (makeNum (Fin 0), Some PowerMissingOperand)
             else
               (case derivNode u var err of (du, e1) \<Rightarrow>
                  case derivNode v var e1 of (dv, e2) \<Rightarrow>
                    if du = Null \<or> dv = Null then (makeNum (Fin 0), e2)
                    else if kv = CHR ''N'' then
                      (if dless (dabs n) lit_1e_12 then (makeNum (Fin 0), e2)
                       else if dless (dabs (dsub n (Fin 1))) lit_1e_12 then (du, e2)
                       else
                         (makeOp (CHR ''*'')
                            (makeOp (CHR ''*'') (makeNum n)
                               (makeOp (CHR ''^'') (cloneTree u) (makeNum (dsub n (Fin 1))))) du, e2))
                    else
                      (makeOp (CHR ''*'')
                         (makeOp (CHR ''^'') (cloneTree u) (cloneTree v))
                         (makeOp (CHR ''+'')
                            (makeOp (CHR ''*'') dv (makeFunc ''ln'' (cloneTree u)))
                            (makeOp (CHR ''*'') (cloneTree v)
                               (makeOp (CHR ''/'') du (cloneTree u)))), e2)))
      else (Null, Some UnsupportedOperator))"

definition DerivativeTree :: "ExprTree \<Rightarrow> char \<Rightarrow> deriv_msg option \<Rightarrow> ExprTree \<times> deriv_msg option" where
  "DerivativeTree T var err =
     (if root T = Null then (emptyTree, Some EmptyExpression)
      else
        (case derivNode (root T) var err of (r, e) \<Rightarrow>
           if r = Null then (emptyTree, e)
           else (\<lparr>root = r, postfixRaw = ''<derivative>'', infixCache = []\<rparr>, e)))"

section \<open>cloneTree on an explicit store\<close>

text \<open>
  For the question which nodes two trees share, the nodes live in a store: a cell per
  address, with the addresses of the children (\<open>None\<close> is \<open>nullptr\<close>). \<open>new Node()\<close>
  takes the next free address \<open>nxt\<close>. \<open>cloneTreeH\<close> is \<open>cloneTree\<close> on this store; it
  follows pointers, so it carries fuel, and fails (\<open>None\<close>) when the fuel runs out or a
  pointer dangles. The steps are those of the source: \<open>q = new Node()\<close>, \<open>*q = *p\<close>,
  \<open>q->l = cloneTree(p->l)\<close>, \<open>q->r = cloneTree(p->r)\<close>, each reading \<open>p\<close> in the store of
  that moment.
\<close>

record cell =
  c_kind :: char
  c_ch :: char
  c_num :: dbl
  c_l :: "nat option"
  c_r :: "nat option"

record store =
  cells :: "nat \<Rightarrow> cell option"
  nxt :: nat

definition new_Node :: "store \<Rightarrow> nat \<times> store" where
  "new_Node s =
     (nxt s,
      s\<lparr>cells := (cells s)(nxt s \<mapsto>
            \<lparr>c_kind = CHR ''N'', c_ch = CHR 0x00, c_num = Fin 0, c_l = None, c_r = None\<rparr>),
        nxt := Suc (nxt s)\<rparr>)"

definition assign :: "nat \<Rightarrow> cell \<Rightarrow> store \<Rightarrow> store" where
  "assign q c s = s\<lparr>cells := (cells s)(q \<mapsto> c)\<rparr>"

definition set_l :: "nat \<Rightarrow> nat option \<Rightarrow> store \<Rightarrow> store" where
  "set_l q v s = (case cells s q of None \<Rightarrow> s | Some c \<Rightarrow> s\<lparr>cells := (cells s)(q \<mapsto> c\<lparr>c_l := v\<rparr>)\<rparr>)"

definition set_r :: "nat \<Rightarrow> nat option \<Rightarrow> store \<Rightarrow> store" where
  "set_r q v s = (case cells s q of None \<Rightarrow> s | Some c \<Rightarrow> s\<lparr>cells := (cells s)(q \<mapsto> c\<lparr>c_r := v\<rparr>)\<rparr>)"

fun cloneTreeH :: "nat \<Rightarrow> store \<Rightarrow> nat option \<Rightarrow> (nat option \<times> store) option" where
  "cloneTreeH 0 s p = None"
| "cloneTreeH (Suc n) s None = Some (None, s)"
| "cloneTreeH (Suc n) s (Some a) =
     (case cells s a of
        None \<Rightarrow> None
      | Some c \<Rightarrow>
          (case new_Node s of (q, s0) \<Rightarrow>
             (let s1 = assign q c s0 in
              case cells s1 a of
                None \<Rightarrow> None
              | Some c1 \<Rightarrow>
                  (case cloneTreeH n s1 (c_l c1) of
                     None \<Rightarrow> None
                   | Some (lq, s2) \<Rightarrow>
                       (let s3 = set_l q lq s2 in
                        case cells s3 a of
                          None \<Rightarrow> None
                        | Some c3 \<Rightarrow>
                            (case cloneTreeH n s3 (c_r c3) of
                               None \<Rightarrow> None
                             | Some (rq, s4) \<Rightarrow> Some (Some q, set_r q rq s4)))))))"

text \<open>
  \<open>tree_at h p t\<close>: in the store \<open>h\<close> the pointer \<open>p\<close> is the root of the tree \<open>t\<close>;
  \<open>addrs h p t\<close> are the addresses of its nodes.
\<close>

fun tree_at :: "(nat \<Rightarrow> cell option) \<Rightarrow> nat option \<Rightarrow> node \<Rightarrow> bool" where
  "tree_at h None Null = True"
| "tree_at h (Some a) Null = False"
| "tree_at h None (Node k c x lt rt) = False"
| "tree_at h (Some a) (Node k c x lt rt) =
     (case h a of
        None \<Rightarrow> False
      | Some cl \<Rightarrow> c_kind cl = k \<and> c_ch cl = c \<and> c_num cl = x
          \<and> tree_at h (c_l cl) lt \<and> tree_at h (c_r cl) rt)"

fun addrs :: "(nat \<Rightarrow> cell option) \<Rightarrow> nat option \<Rightarrow> node \<Rightarrow> nat set" where
  "addrs h p Null = {}"
| "addrs h None (Node k c x lt rt) = {}"
| "addrs h (Some a) (Node k c x lt rt) =
     (case h a of
        None \<Rightarrow> {a}
      | Some cl \<Rightarrow> {a} \<union> addrs h (c_l cl) lt \<union> addrs h (c_r cl) rt)"

fun depth :: "node \<Rightarrow> nat" where
  "depth Null = 0"
| "depth (Node k c x lt rt) = Suc (max (depth lt) (depth rt))"


section \<open>Trees that the parser can produce\<close>

text \<open>
  \<open>oneDigit x\<close> is the test \<open>num == (int)num && num >= 0 && num <= 9\<close> of the serializer:
  the number is an integer from 0 to 9.
\<close>

definition oneDigit :: "dbl \<Rightarrow> bool" where
  "oneDigit x \<longleftrightarrow> deq x (Fin (real_of_int (int_cast x))) \<and> dle (Fin 0) x \<and> dle x (Fin 9)"

text \<open>
  \<open>parseable t\<close>: \<open>t\<close> is not empty, has no function node, every number leaf is an integer
  from 0 to 9 (\<open>oneDigit\<close>), every variable is a lower-case letter, and every other node is an
  operator node with one of the five operators and two sub-trees of the same form.
\<close>

fun parseable :: "node \<Rightarrow> bool" where
  "parseable Null = False"
| "parseable (Node k c x lt rt) =
     (if k = CHR ''N'' then oneDigit x
      else if k = CHR ''V'' then isLower c
      else k = CHR ''O'' \<and> isOp c \<and> parseable lt \<and> parseable rt)"


section \<open>Simplification (simplifyNode)\<close>

text \<open>
  \<open>extractCoefAndBase(p, base, coef)\<close> returns the pair \<open>(base, coef)\<close>; the base \<open>Null\<close>
  is the null pointer that marks a pure number.
\<close>

fun extractCoefAndBase :: "node \<Rightarrow> node \<times> dbl" where
  "extractCoefAndBase Null = (Null, Fin 1)"
| "extractCoefAndBase (Node k c x lt rt) =
     (if k = CHR ''O'' \<and> c = CHR ''*'' \<and> isNumLeaf rt \<noteq> None \<and> isNumLeaf lt = None
        then (lt, the (isNumLeaf rt))
      else if k = CHR ''O'' \<and> c = CHR ''*'' \<and> isNumLeaf lt \<noteq> None \<and> isNumLeaf rt = None
        then (rt, the (isNumLeaf lt))
      else if k = CHR ''N'' then (Null, x)
      else (Node k c x lt rt, Fin 1))"

text \<open>\<open>collectAddTerms\<close> and \<open>collectMulTerms\<close> return the entries they push, in order.\<close>

fun collectAddTerms :: "node \<Rightarrow> node list" where
  "collectAddTerms Null = []"
| "collectAddTerms (Node k c x lt rt) =
     (if k = CHR ''O'' \<and> c = CHR ''+'' then collectAddTerms lt @ collectAddTerms rt
      else [Node k c x lt rt])"

fun collectMulTerms :: "node \<Rightarrow> node list" where
  "collectMulTerms Null = []"
| "collectMulTerms (Node k c x lt rt) =
     (if k = CHR ''O'' \<and> c = CHR ''*'' then collectMulTerms lt @ collectMulTerms rt
      else [Node k c x lt rt])"

text \<open>The test \<open>sameBase\<close> of the grouping loop of the sum.\<close>

definition sameBase :: "node \<Rightarrow> node \<Rightarrow> bool" where
  "sameBase b b' \<longleftrightarrow> (b = Null \<and> b' = Null) \<or> (b \<noteq> Null \<and> b' \<noteq> Null \<and> treesEqual b b')"

text \<open>
  The grouping loops work on the entries paired with their \<open>used\<close> flag.
  \<open>absorbAdd base totalCoef rest\<close> is the inner loop over \<open>j > i\<close>: it adds the
  coefficient of every unused entry with the same base and marks the entry as used.
  \<open>groupAdd\<close> is the outer loop over \<open>i\<close>: a used entry is skipped, an unused one starts a
  group.
\<close>

fun absorbAdd ::
  "node \<Rightarrow> dbl \<Rightarrow> ((node \<times> dbl) \<times> bool) list \<Rightarrow> dbl \<times> ((node \<times> dbl) \<times> bool) list" where
  "absorbAdd base totalCoef [] = (totalCoef, [])"
| "absorbAdd base totalCoef (((b, c), u) # rest) =
     (if \<not> u \<and> sameBase base b then
        (case absorbAdd base (dadd totalCoef c) rest of (t, rest') \<Rightarrow> (t, ((b, c), True) # rest'))
      else
        (case absorbAdd base totalCoef rest of (t, rest') \<Rightarrow> (t, ((b, c), u) # rest')))"

lemma length_absorbAdd:
  "absorbAdd base totalCoef xs = (t, xs') \<Longrightarrow> length xs' = length xs"
proof (induction xs arbitrary: totalCoef t xs')
  case Nil
  then show ?case by simp
next
  case (Cons a xs)
  obtain b c u where a: "a = ((b, c), u)" by (metis surj_pair)
  show ?case using Cons.prems Cons.IH unfolding a
    by (fastforce split: if_splits prod.splits)
qed

function groupAdd :: "((node \<times> dbl) \<times> bool) list \<Rightarrow> (node \<times> dbl) list" where
  "groupAdd [] = []"
| "groupAdd (((b, c), u) # rest) =
     (if u then groupAdd rest
      else (case absorbAdd b c rest of (t, rest') \<Rightarrow> (b, t) # groupAdd rest'))"
  by pat_completeness auto
termination
  apply (relation "measure length")
    apply simp_all
  apply (metis length_absorbAdd less_Suc_eq)
  done


text \<open>
  Building the sum: \<open>sumTerm\<close> is the term made for one group (\<open>None\<close> is the
  \<open>continue\<close> for a coefficient near zero), \<open>buildSum\<close> the loop that chains the terms
  with \<open>+\<close>, starting from \<open>result = nullptr\<close>.
\<close>

fun sumTerm :: "node \<times> dbl \<Rightarrow> node option" where
  "sumTerm (b, c) =
     (if b = Null then Some (makeNum c)
      else if dless (dabs (dsub c (Fin 1))) lit_1e_12 then Some (cloneTree b)
      else if dless (dabs c) lit_1e_12 then None
      else Some (makeOp (CHR ''*'') (cloneTree b) (makeNum c)))"

fun buildSum :: "node \<Rightarrow> (node \<times> dbl) list \<Rightarrow> node" where
  "buildSum result [] = result"
| "buildSum result (g # gs) =
     (case sumTerm g of
        None \<Rightarrow> buildSum result gs
      | Some term \<Rightarrow> buildSum (if result = Null then term else makeOp (CHR ''+'') result term) gs)"

text \<open>
  The block "merge like terms" for a \<open>+\<close> node: \<open>Some\<close> of the rebuilt sum when the
  grouping has fewer entries than there are terms, \<open>None\<close> when the block is left
  without returning.
\<close>

definition addMerge :: "node \<Rightarrow> node option" where
  "addMerge p =
     (let terms = collectAddTerms p in
      if length terms \<ge> 2 then
        (let infos = map extractCoefAndBase terms;
             grouped = groupAdd (map (\<lambda>ti. (ti, False)) infos) in
         if length grouped < length terms then
           (let result = buildSum Null grouped in
            Some (if result = Null then makeNum (Fin 0) else result))
         else None)
      else None)"

text \<open>The same two loops for the factors of a product; a group counts its members.\<close>

fun absorbMul :: "node \<Rightarrow> int \<Rightarrow> (node \<times> bool) list \<Rightarrow> int \<times> (node \<times> bool) list" where
  "absorbMul f count [] = (count, [])"
| "absorbMul f count ((g, u) # rest) =
     (if \<not> u \<and> treesEqual f g then
        (case absorbMul f (count + 1) rest of (n, rest') \<Rightarrow> (n, (g, True) # rest'))
      else
        (case absorbMul f count rest of (n, rest') \<Rightarrow> (n, (g, u) # rest')))"

lemma length_absorbMul:
  "absorbMul f count xs = (n, xs') \<Longrightarrow> length xs' = length xs"
proof (induction xs arbitrary: count n xs')
  case Nil
  then show ?case by simp
next
  case (Cons a xs)
  obtain g u where a: "a = (g, u)" by (metis surj_pair)
  show ?case using Cons.prems Cons.IH unfolding a
    by (fastforce split: if_splits prod.splits)
qed

function groupMul :: "(node \<times> bool) list \<Rightarrow> (node \<times> int) list" where
  "groupMul [] = []"
| "groupMul ((f, u) # rest) =
     (if u then groupMul rest
      else (case absorbMul f 1 rest of (n, rest') \<Rightarrow> (f, n) # groupMul rest'))"
  by pat_completeness auto
termination
  apply (relation "measure length")
    apply simp_all
  apply (metis length_absorbMul less_Suc_eq)
  done

text \<open>Building the product.\<close>

fun prodTerm :: "node \<times> int \<Rightarrow> node" where
  "prodTerm (f, n) =
     (if n = 1 then cloneTree f
      else makeOp (CHR ''^'') (cloneTree f) (makeNum (Fin (real_of_int n))))"

fun buildProd :: "node \<Rightarrow> (node \<times> int) list \<Rightarrow> node" where
  "buildProd result [] = result"
| "buildProd result (g # gs) =
     buildProd (if result = Null then prodTerm g else makeOp (CHR ''*'') result (prodTerm g)) gs"

text \<open>
  What the body of \<open>simplifyNode\<close> does after it has simplified the children: it
  returns a node (\<open>Done\<close>) or returns \<open>simplifyNode(result)\<close> for a rebuilt tree
  (\<open>Again\<close>).
\<close>

datatype step = Done node | Again node

text \<open>
  The block "merge like factors" for a \<open>*\<close> node: \<open>None\<close> when the block is left
  without returning.
\<close>

definition mulMerge :: "node \<Rightarrow> step option" where
  "mulMerge p =
     (let factors = collectMulTerms p in
      if length factors \<ge> 2 then
        (let numProduct =
               foldl (\<lambda>acc f. case isNumLeaf f of Some v \<Rightarrow> dmul acc v | None \<Rightarrow> acc) (Fin 1) factors;
             nonNumFactors = filter (\<lambda>f. isNumLeaf f = None) factors;
             grouped = groupMul (map (\<lambda>f. (f, False)) nonNumFactors);
             expectedFactors = length nonNumFactors
               + (if dle lit_1e_12 (dabs (dsub numProduct (Fin 1))) then 1 else 0);
             hasNumMerge = (length factors > expectedFactors);
             hasVarMerge = (length grouped < length nonNumFactors) in
         if hasNumMerge \<or> hasVarMerge then
           (if dless (dabs numProduct) lit_1e_12 then Some (Done (makeNum (Fin 0)))
            else
              (let result = buildProd
                     (if dle lit_1e_12 (dabs (dsub numProduct (Fin 1))) then makeNum numProduct
                      else Null) grouped in
               Some (Again (if result = Null then makeNum numProduct else result))))
         else None)
      else None)"

text \<open>
  The constant folding of an operator node with two number children: \<open>None\<close> is
  \<open>valid = false\<close>.
\<close>

definition foldBinary :: "(dbl \<Rightarrow> dbl \<Rightarrow> dbl) \<Rightarrow> char \<Rightarrow> dbl \<Rightarrow> dbl \<Rightarrow> dbl option" where
  "foldBinary powf c lv rv =
     (if c = CHR ''+'' then Some (dadd lv rv)
      else if c = CHR ''-'' then Some (dsub lv rv)
      else if c = CHR ''*'' then Some (dmul lv rv)
      else if c = CHR ''/'' then (if dless (dabs rv) lit_1e_12 then None else Some (ddiv lv rv))
      else if c = CHR ''^'' then Some (powf lv rv)
      else None)"

text \<open>
  The identity rules at the end of the body. \<open>nearZero (isNumLeaf p)\<close> is the test
  \<open>const && fabs(v) < 1e-12\<close>, \<open>nearOne\<close> the test \<open>const && fabs(v - 1) < 1e-12\<close>.
\<close>

fun nearZero :: "dbl option \<Rightarrow> bool" where
  "nearZero None = False"
| "nearZero (Some v) = dless (dabs v) lit_1e_12"

fun nearOne :: "dbl option \<Rightarrow> bool" where
  "nearOne None = False"
| "nearOne (Some v) = dless (dabs (dsub v (Fin 1))) lit_1e_12"

definition identityRules :: "char \<Rightarrow> char \<Rightarrow> dbl \<Rightarrow> node \<Rightarrow> node \<Rightarrow> node" where
  "identityRules k c x lt rt =
     (let lConst = isNumLeaf lt; rConst = isNumLeaf rt in
      if c = CHR ''+'' \<and> nearZero rConst then lt
      else if c = CHR ''+'' \<and> nearZero lConst then rt
      else if c = CHR ''-'' \<and> nearZero rConst then lt
      else if c = CHR ''*'' \<and> (nearZero rConst \<or> nearZero lConst) then makeNum (Fin 0)
      else if c = CHR ''*'' \<and> nearOne rConst then lt
      else if c = CHR ''*'' \<and> nearOne lConst then rt
      else if c = CHR ''/'' \<and> nearOne rConst then lt
      else if c = CHR ''^'' \<and> nearZero rConst then makeNum (Fin 1)
      else if c = CHR ''^'' \<and> nearOne rConst then lt
      else Node k c x lt rt)"

text \<open>
  \<open>simplifyTop powf p\<close> is the body of \<open>simplifyNode\<close> after the two recursive calls on
  the children, for the node \<open>p\<close> that already holds the simplified children.
\<close>

fun simplifyTop :: "(dbl \<Rightarrow> dbl \<Rightarrow> dbl) \<Rightarrow> node \<Rightarrow> step" where
  "simplifyTop powf Null = Done Null"
| "simplifyTop powf (Node k c x lt rt) =
     (if k = CHR ''F'' then
        (case isNumLeaf lt of
           Some v \<Rightarrow>
             if c = CHR ''s'' then Done (makeNum (dsin v))
             else if c = CHR ''c'' then Done (makeNum (dcos v))
             else if c = CHR ''t'' then Done (makeNum (dtan v))
             else if c = CHR ''l'' then
               (if dless (Fin 0) v then Done (makeNum (dlog v)) else Done (Node k c x lt rt))
             else Done (Node k c x lt rt)
         | None \<Rightarrow> Done (Node k c x lt rt))
      else if k = CHR ''O'' then
        (case (case (isNumLeaf lt, isNumLeaf rt) of
                 (Some lv, Some rv) \<Rightarrow> foldBinary powf c lv rv
               | _ \<Rightarrow> None) of
           Some v \<Rightarrow> Done (makeNum v)
         | None \<Rightarrow>
             (case (if c = CHR ''+'' then addMerge (Node k c x lt rt) else None) of
                Some q \<Rightarrow> Again q
              | None \<Rightarrow>
                  (case (if c = CHR ''*'' then mulMerge (Node k c x lt rt) else None) of
                     Some st \<Rightarrow> st
                   | None \<Rightarrow> Done (identityRules k c x lt rt))))
      else Done (Node k c x lt rt))"

text \<open>
  The measure of the recursion: a \<open>+\<close> node weighs 3, a \<open>*\<close> node 2, every other node 1.
  Every tree that \<open>simplifyNode\<close> rebuilds and simplifies again is lighter than the node
  it replaces.
\<close>

fun weight :: "node \<Rightarrow> nat" where
  "weight Null = 0"
| "weight (Node k c x lt rt) =
     (if k = CHR ''O'' \<and> c = CHR ''+'' then 3 else if k = CHR ''O'' \<and> c = CHR ''*'' then 2 else 1)
       + weight lt + weight rt"

text \<open>
  \<open>simplifyNode\<close>: the children first, then the body. The recursion is nested, so its
  termination is proved below, after the lemmas on the weight.
\<close>

function simplifyNode :: "(dbl \<Rightarrow> dbl \<Rightarrow> dbl) \<Rightarrow> node \<Rightarrow> node" where
  "simplifyNode powf Null = Null"
| "simplifyNode powf (Node k c x lt rt) =
     (case simplifyTop powf (Node k c x (simplifyNode powf lt) (simplifyNode powf rt)) of
        Done q \<Rightarrow> q
      | Again q \<Rightarrow> simplifyNode powf q)"
  by pat_completeness auto



subsection \<open>Termination of simplifyNode\<close>

lemma dbl_of_0 [simp]: "dbl_of 0 = Fin 0"
  by (simp add: dbl_of_def)

lemma dsub_self [simp]: "dsub (Fin a) (Fin a) = Fin 0"
  by (simp add: dsub_def)

lemma zero_less_lit [simp]: "dless (Fin 0) lit_1e_12" "\<not> dle lit_1e_12 (Fin 0)"
  by (simp_all add: lit_1e_12_def)

lemma cloneTree_id: "cloneTree p = p"
  by (induction p) simp_all

lemma weight_pos: "p \<noteq> Null \<Longrightarrow> 1 \<le> weight p"
  by (cases p) auto

lemma collectAddTerms_nonnull: "Null \<notin> set (collectAddTerms p)"
  by (induction p) auto

lemma collectMulTerms_nonnull: "Null \<notin> set (collectMulTerms p)"
  by (induction p) auto

lemma collectAddTerms_weight:
  "sum_list (map (\<lambda>t. weight t + 3) (collectAddTerms p)) \<le> weight p + 3"
  by (induction p) auto

lemma collectMulTerms_weight:
  "sum_list (map (\<lambda>t. weight t + 2) (collectMulTerms p)) \<le> weight p + 2"
  by (induction p) auto

fun tw :: "node \<times> dbl \<Rightarrow> nat" where
  "tw (b, c) =
     (if b = Null then 1
      else if dless (dabs (dsub c (Fin 1))) lit_1e_12 then weight b
      else weight b + 3)"

lemma tw_pos: "1 \<le> tw g"
  using weight_pos[of "fst g"] by (cases g) auto

lemma tw_change: "tw (b, t) \<le> tw (b, c) + 3"
  by auto

lemma isNumLeaf_Some_weight: "isNumLeaf p = Some v \<Longrightarrow> 1 \<le> weight p"
  by (cases p) (auto split: if_splits)

lemma tw_extract: "t \<noteq> Null \<Longrightarrow> tw (extractCoefAndBase t) \<le> weight t"
proof (cases t)
  case Null
  assume "t \<noteq> Null"
  with Null show ?thesis by simp
next
  case (Node k c x lt rt)
  show ?thesis unfolding Node
    using isNumLeaf_Some_weight[of rt] isNumLeaf_Some_weight[of lt]
    by (auto simp: weight_pos)
qed

definition unusedN :: "('a \<times> bool) list \<Rightarrow> nat" where
  "unusedN xs = length (filter (\<lambda>e. \<not> snd e) xs)"

definition unusedW :: "((node \<times> dbl) \<times> bool) list \<Rightarrow> nat" where
  "unusedW xs = sum_list (map (\<lambda>e. if snd e then 0 else tw (fst e) + 3) xs)"

lemma absorbAdd_weight:
  "absorbAdd b c xs = (t, xs') \<Longrightarrow>
     \<exists>a. unusedN xs = unusedN xs' + a \<and> unusedW xs' + 4 * a \<le> unusedW xs \<and> (a = 0 \<longrightarrow> t = c)"
proof (induction xs arbitrary: c t xs')
  case Nil
  then show ?case by (simp add: unusedN_def unusedW_def)
next
  case (Cons e xs)
  obtain b' c' u where e: "e = ((b', c'), u)" by (metis surj_pair)
  show ?case
  proof (cases "\<not> u \<and> sameBase b b'")
    case True
    obtain t1 r1 where r: "absorbAdd b (dadd c c') xs = (t1, r1)" by (metis surj_pair)
    from Cons.IH[OF r] obtain a where
      a: "unusedN xs = unusedN r1 + a" "unusedW r1 + 4 * a \<le> unusedW xs" by blast
    from Cons.prems r True have "t = t1" "xs' = ((b', c'), True) # r1"
      by (simp_all add: e)
    then have "unusedN (e # xs) = unusedN xs' + Suc a \<and> unusedW xs' + 4 * Suc a \<le> unusedW (e # xs)"
      using a True tw_pos[of "(b', c')"] by (simp add: e unusedN_def unusedW_def)
    then show ?thesis by blast
  next
    case False
    obtain t1 r1 where r: "absorbAdd b c xs = (t1, r1)" by (metis surj_pair)
    from Cons.IH[OF r] obtain a where
      a: "unusedN xs = unusedN r1 + a" "unusedW r1 + 4 * a \<le> unusedW xs" "a = 0 \<longrightarrow> t1 = c" by blast
    from Cons.prems r False have "t = t1" "xs' = ((b', c'), u) # r1"
      by (auto simp: e)
    then have "unusedN (e # xs) = unusedN xs' + a \<and> unusedW xs' + 4 * a \<le> unusedW (e # xs)
        \<and> (a = 0 \<longrightarrow> t = c)"
      using a by (simp add: e unusedN_def unusedW_def)
    then show ?thesis by blast
  qed
qed

lemma groupAdd_weight:
  "sum_list (map (\<lambda>g. tw g + 3) (groupAdd xs)) + unusedN xs \<le> unusedW xs + length (groupAdd xs)"
proof (induction xs rule: groupAdd.induct)
  case 1
  then show ?case by (simp add: unusedN_def unusedW_def)
next
  case (2 b c u rest)
  show ?case
  proof (cases u)
    case True
    with 2 show ?thesis by (simp add: unusedN_def unusedW_def)
  next
    case False
    obtain t rest' where r: "absorbAdd b c rest = (t, rest')" by (metis surj_pair)
    from absorbAdd_weight[OF r] obtain a where
      a: "unusedN rest = unusedN rest' + a" "unusedW rest' + 4 * a \<le> unusedW rest" "a = 0 \<longrightarrow> t = c"
      by blast
    have ih: "sum_list (map (\<lambda>g. tw g + 3) (groupAdd rest')) + unusedN rest'
        \<le> unusedW rest' + length (groupAdd rest')"
      using 2(2)[OF False r[symmetric]] .
    have tw: "tw (b, t) + a \<le> tw (b, c) + 4 * a"
    proof (cases "a = 0")
      case True
      with a(3) show ?thesis by simp
    next
      case False
      with tw_change[of b t c] show ?thesis by simp
    qed
    have g: "groupAdd (((b, c), u) # rest) = (b, t) # groupAdd rest'"
      using False r by simp
    have un: "unusedN (((b, c), u) # rest) = Suc (unusedN rest)"
      "unusedW (((b, c), u) # rest) = tw (b, c) + 3 + unusedW rest"
      using False by (simp_all add: unusedN_def unusedW_def)
    show ?thesis unfolding g un using ih a(1,2) tw by simp
  qed
qed

lemma sumTerm_weight: "sumTerm g = Some tm \<Longrightarrow> weight tm \<le> tw g"
  by (cases g) (auto simp: cloneTree_id makeNum_def makeOp_def split: if_splits)

lemma buildSum_weight:
  "buildSum acc gs = Null \<or>
   weight (buildSum acc gs) + 3 \<le> (if acc = Null then 0 else weight acc + 3) + sum_list (map (\<lambda>g. tw g + 3) gs)"
proof (induction gs arbitrary: acc)
  case Nil
  then show ?case by simp
next
  case (Cons g gs)
  show ?case
  proof (cases "sumTerm g")
    case None
    with Cons.IH[of acc] show ?thesis by auto
  next
    case (Some tm)
    let ?acc = "if acc = Null then tm else makeOp (CHR ''+'') acc tm"
    have w: "(if ?acc = Null then 0 else weight ?acc + 3)
        \<le> (if acc = Null then 0 else weight acc + 3) + (tw g + 3)"
      using sumTerm_weight[OF Some] by (auto simp: makeOp_def)
    from Cons.IH[of ?acc] w Some show ?thesis by auto
  qed
qed

lemma unused_init:
  "unusedN (map (\<lambda>ti. (ti, False)) infos) = length infos"
  "unusedW (map (\<lambda>ti. (ti, False)) infos) = sum_list (map (\<lambda>i. tw i + 3) infos)"
  by (simp_all add: unusedN_def unusedW_def comp_def)

lemma infos_weight:
  "Null \<notin> set ts \<Longrightarrow>
   sum_list (map (\<lambda>i. tw i + 3) (map extractCoefAndBase ts)) \<le> sum_list (map (\<lambda>t. weight t + 3) ts)"
proof (induction ts)
  case Nil
  then show ?case by simp
next
  case (Cons t ts)
  then have "t \<noteq> Null" by auto
  from tw_extract[OF this] Cons show ?case by simp
qed

lemma sum_list_ge_length:
  "sum_list (map (\<lambda>t. f t + (k::nat)) ts) \<ge> k * length ts"
  by (induction ts) auto

lemma addMerge_weight:
  assumes "addMerge p = Some q"
  shows "weight q < weight p"
proof -
  define terms where "terms = collectAddTerms p"
  define infos where "infos = map extractCoefAndBase terms"
  define grouped where "grouped = groupAdd (map (\<lambda>ti. (ti, False)) infos)"
  define result where "result = buildSum Null grouped"
  from assms have n2: "2 \<le> length terms" and lt: "length grouped < length terms"
    and q: "q = (if result = Null then makeNum (Fin 0) else result)"
    by (auto simp: addMerge_def Let_def terms_def infos_def grouped_def result_def split: if_splits)
  have 1: "sum_list (map (\<lambda>g. tw g + 3) grouped) + length terms
      \<le> sum_list (map (\<lambda>i. tw i + 3) infos) + length grouped"
  proof -
    have "length infos = length terms" by (simp add: infos_def)
    then show ?thesis
      using groupAdd_weight[of "map (\<lambda>ti. (ti, False)) infos"]
      unfolding unused_init grouped_def[symmetric] by simp
  qed
  have 2: "sum_list (map (\<lambda>i. tw i + 3) infos) \<le> sum_list (map (\<lambda>t. weight t + 3) terms)"
    unfolding infos_def terms_def by (rule infos_weight[OF collectAddTerms_nonnull])
  have 3: "sum_list (map (\<lambda>t. weight t + 3) terms) \<le> weight p + 3"
    unfolding terms_def by (rule collectAddTerms_weight)
  have 4: "3 * length terms \<le> sum_list (map (\<lambda>t. weight t + 3) terms)"
    by (rule sum_list_ge_length)
  have 5: "sum_list (map (\<lambda>g. tw g + 3) grouped) < weight p + 3"
    using 1 2 3 lt by linarith
  show ?thesis
  proof (cases "result = Null")
    case True
    then have "weight q = 1" using q by (simp add: makeNum_def)
    then show ?thesis using 3 4 n2 by linarith
  next
    case False
    with buildSum_weight[of Null grouped] have "weight result + 3 \<le> sum_list (map (\<lambda>g. tw g + 3) grouped)"
      by (simp add: result_def)
    then show ?thesis using 5 q False by simp
  qed
qed


fun fw :: "node \<times> int \<Rightarrow> nat" where
  "fw (f, n) = (if n = 1 then weight f else weight f + 2)"

definition unusedWm :: "(node \<times> bool) list \<Rightarrow> nat" where
  "unusedWm xs = sum_list (map (\<lambda>e. if snd e then 0 else weight (fst e) + 2) xs)"

lemma absorbMul_weight:
  "absorbMul f cnt xs = (n, xs') \<Longrightarrow> Null \<notin> fst ` set xs \<Longrightarrow>
     Null \<notin> fst ` set xs' \<and>
     (\<exists>a. unusedN xs = unusedN xs' + a \<and> unusedWm xs' + 3 * a \<le> unusedWm xs \<and> (a = 0 \<longrightarrow> n = cnt))"
proof (induction xs arbitrary: cnt n xs')
  case Nil
  then show ?case by (simp add: unusedN_def unusedWm_def)
next
  case (Cons e xs)
  obtain g u where e: "e = (g, u)" by (metis surj_pair)
  from Cons.prems(2) have gn: "g \<noteq> Null" and xn: "Null \<notin> fst ` set xs" by (auto simp: e)
  show ?case
  proof (cases "\<not> u \<and> treesEqual f g")
    case True
    obtain n1 r1 where r: "absorbMul f (cnt + 1) xs = (n1, r1)" by (metis surj_pair)
    from Cons.IH[OF r xn] obtain a where
      a: "Null \<notin> fst ` set r1" "unusedN xs = unusedN r1 + a" "unusedWm r1 + 3 * a \<le> unusedWm xs"
      by blast
    from Cons.prems(1) r True have "n = n1" "xs' = (g, True) # r1"
      by (simp_all add: e)
    then have "Null \<notin> fst ` set xs' \<and> unusedN (e # xs) = unusedN xs' + Suc a
        \<and> unusedWm xs' + 3 * Suc a \<le> unusedWm (e # xs)"
      using a True gn weight_pos[OF gn] by (simp add: e unusedN_def unusedWm_def)
    then show ?thesis by blast
  next
    case False
    obtain n1 r1 where r: "absorbMul f cnt xs = (n1, r1)" by (metis surj_pair)
    from Cons.IH[OF r xn] obtain a where
      a: "Null \<notin> fst ` set r1" "unusedN xs = unusedN r1 + a" "unusedWm r1 + 3 * a \<le> unusedWm xs"
         "a = 0 \<longrightarrow> n1 = cnt"
      by blast
    from Cons.prems(1) r False have "n = n1" "xs' = (g, u) # r1"
      by (auto simp: e)
    then have "Null \<notin> fst ` set xs' \<and> unusedN (e # xs) = unusedN xs' + a
        \<and> unusedWm xs' + 3 * a \<le> unusedWm (e # xs) \<and> (a = 0 \<longrightarrow> n = cnt)"
      using a gn by (simp add: e unusedN_def unusedWm_def)
    then show ?thesis by blast
  qed
qed

lemma groupMul_weight:
  "Null \<notin> fst ` set xs \<Longrightarrow>
   sum_list (map (\<lambda>g. fw g + 2) (groupMul xs)) + unusedN xs \<le> unusedWm xs + length (groupMul xs)
   \<and> length (groupMul xs) \<le> unusedN xs"
proof (induction xs rule: groupMul.induct)
  case 1
  then show ?case by (simp add: unusedN_def unusedWm_def)
next
  case (2 f u rest)
  from 2(3) have rn: "Null \<notin> fst ` set rest" by auto
  show ?case
  proof (cases u)
    case True
    with 2(1)[OF True rn] show ?thesis by (simp add: unusedN_def unusedWm_def)
  next
    case False
    obtain n rest' where r: "absorbMul f 1 rest = (n, rest')" by (metis surj_pair)
    from absorbMul_weight[OF r rn] obtain a where
      a: "Null \<notin> fst ` set rest'" "unusedN rest = unusedN rest' + a"
         "unusedWm rest' + 3 * a \<le> unusedWm rest" "a = 0 \<longrightarrow> n = 1"
      by blast
    have ih: "sum_list (map (\<lambda>g. fw g + 2) (groupMul rest')) + unusedN rest'
        \<le> unusedWm rest' + length (groupMul rest')"
      "length (groupMul rest') \<le> unusedN rest'"
      using 2(2)[OF False r[symmetric] a(1)] by simp_all
    have fw: "fw (f, n) + a \<le> weight f + 3 * a"
    proof (cases "a = 0")
      case True
      with a(4) show ?thesis by simp
    next
      case False
      then show ?thesis by simp
    qed
    have g: "groupMul ((f, u) # rest) = (f, n) # groupMul rest'"
      using False r by simp
    have un: "unusedN ((f, u) # rest) = Suc (unusedN rest)"
      "unusedWm ((f, u) # rest) = weight f + 2 + unusedWm rest"
      using False by (simp_all add: unusedN_def unusedWm_def)
    show ?thesis unfolding g un using ih a(2,3) fw by simp
  qed
qed

lemma prodTerm_weight: "weight (prodTerm g) \<le> fw g"
  by (cases g) (auto simp: cloneTree_id makeNum_def makeOp_def)

lemma buildProd_weight:
  "buildProd acc gs = Null \<or>
   weight (buildProd acc gs) + 2 \<le> (if acc = Null then 0 else weight acc + 2) + sum_list (map (\<lambda>g. fw g + 2) gs)"
proof (induction gs arbitrary: acc)
  case Nil
  then show ?case by simp
next
  case (Cons g gs)
  let ?acc = "if acc = Null then prodTerm g else makeOp (CHR ''*'') acc (prodTerm g)"
  have w: "(if ?acc = Null then 0 else weight ?acc + 2)
      \<le> (if acc = Null then 0 else weight acc + 2) + (fw g + 2)"
    using prodTerm_weight[of g] by (auto simp: makeOp_def)
  from Cons.IH[of ?acc] w show ?case by auto
qed

lemma unused_init_mul:
  "unusedN (map (\<lambda>f. (f, False)) fs) = length fs"
  "unusedWm (map (\<lambda>f. (f, False)) fs) = sum_list (map (\<lambda>f. weight f + 2) fs)"
  by (simp_all add: unusedN_def unusedWm_def comp_def)

lemma numProduct_no_nums:
  "filter (\<lambda>f. isNumLeaf f \<noteq> None) fs = [] \<Longrightarrow>
   foldl (\<lambda>acc f. case isNumLeaf f of Some v \<Rightarrow> dmul acc v | None \<Rightarrow> acc) a fs = a"
  by (induction fs arbitrary: a) (auto split: if_splits)

lemma split_factors_weight:
  "Null \<notin> set fs \<Longrightarrow>
   sum_list (map (\<lambda>f. weight f + 2) (filter (\<lambda>f. isNumLeaf f = None) fs))
     + 3 * length (filter (\<lambda>f. isNumLeaf f \<noteq> None) fs)
   \<le> sum_list (map (\<lambda>f. weight f + 2) fs)"
proof (induction fs)
  case Nil
  then show ?case by simp
next
  case (Cons f fs)
  then have "f \<noteq> Null" by auto
  from weight_pos[OF this] Cons show ?case by auto
qed

lemma length_split_factors:
  "length (filter (\<lambda>f. isNumLeaf f = None) fs) + length (filter (\<lambda>f. isNumLeaf f \<noteq> None) fs)
     = length fs"
  by (induction fs) auto

lemma factors_weight_length:
  "Null \<notin> set fs \<Longrightarrow> 3 * length fs \<le> sum_list (map (\<lambda>f. weight f + 2) fs)"
proof (induction fs)
  case Nil
  then show ?case by simp
next
  case (Cons f fs)
  then have "f \<noteq> Null" by auto
  from weight_pos[OF this] Cons show ?case by auto
qed

lemma mulMerge_weight:
  assumes "mulMerge p = Some st"
  shows "(\<forall>q. st = Again q \<longrightarrow> weight q < weight p) \<and> (\<forall>q. st = Done q \<longrightarrow> weight q \<le> weight p)"
proof -
  define factors where "factors = collectMulTerms p"
  define numProduct where
    "numProduct = foldl (\<lambda>acc f. case isNumLeaf f of Some v \<Rightarrow> dmul acc v | None \<Rightarrow> acc) (Fin 1) factors"
  define nonNum where "nonNum = filter (\<lambda>f. isNumLeaf f = None) factors"
  define grouped where "grouped = groupMul (map (\<lambda>f. (f, False)) nonNum)"
  define e :: nat where "e = (if dle lit_1e_12 (dabs (dsub numProduct (Fin 1))) then 1 else 0)"
  define result where
    "result = buildProd
       (if dle lit_1e_12 (dabs (dsub numProduct (Fin 1))) then makeNum numProduct else Null) grouped"
  define j where "j = length (filter (\<lambda>f. isNumLeaf f \<noteq> None) factors)"
  from assms have n2: "2 \<le> length factors"
    and merge: "length factors > length nonNum + e \<or> length grouped < length nonNum"
    and st: "st = (if dless (dabs numProduct) lit_1e_12 then Done (makeNum (Fin 0))
                   else Again (if result = Null then makeNum numProduct else result))"
    by (auto simp: mulMerge_def Let_def factors_def numProduct_def nonNum_def grouped_def
        e_def result_def split: if_splits)
  have nn: "Null \<notin> set factors" unfolding factors_def by (rule collectMulTerms_nonnull)
  have len: "length nonNum + j = length factors"
    unfolding nonNum_def j_def by (rule length_split_factors)
  have 3: "sum_list (map (\<lambda>f. weight f + 2) factors) \<le> weight p + 2"
    unfolding factors_def by (rule collectMulTerms_weight)
  have 4: "3 * length factors \<le> sum_list (map (\<lambda>f. weight f + 2) factors)"
    by (rule factors_weight_length[OF nn])
  have wp: "4 \<le> weight p" using 3 4 n2 by linarith
  have 2: "sum_list (map (\<lambda>f. weight f + 2) nonNum) + 3 * j \<le> sum_list (map (\<lambda>f. weight f + 2) factors)"
    unfolding nonNum_def j_def by (rule split_factors_weight[OF nn])
  have nn': "Null \<notin> fst ` set (map (\<lambda>f. (f, False)) nonNum)"
    using nn by (auto simp: nonNum_def)
  have 1: "sum_list (map (\<lambda>g. fw g + 2) grouped) + length nonNum
      \<le> sum_list (map (\<lambda>f. weight f + 2) nonNum) + length grouped"
    and gl: "length grouped \<le> length nonNum"
    using groupMul_weight[OF nn'] unfolding unused_init_mul grouped_def[symmetric] by simp_all
  have ej: "e \<le> j"
  proof (cases "j = 0")
    case True
    then have "numProduct = Fin 1"
      unfolding numProduct_def j_def by (simp add: numProduct_no_nums)
    then show ?thesis by (simp add: e_def)
  next
    case False
    then show ?thesis by (simp add: e_def)
  qed
  have again: "weight (if result = Null then makeNum numProduct else result) < weight p"
  proof (cases "result = Null")
    case True
    then show ?thesis using wp by (simp add: makeNum_def)
  next
    case False
    have "weight result + 2 \<le> 3 * e + sum_list (map (\<lambda>g. fw g + 2) grouped)"
      using buildProd_weight[of "if dle lit_1e_12 (dabs (dsub numProduct (Fin 1))) then makeNum numProduct else Null" grouped]
        False
      by (auto simp: result_def e_def makeNum_def split: if_splits)
    then show ?thesis using False 1 gl 2 3 ej merge len by simp linarith
  qed
  show ?thesis using st again wp by (auto simp: makeNum_def split: if_splits)
qed

lemma identityRules_cases:
  "identityRules k c x lt rt \<in> {Node k c x lt rt, lt, rt, makeNum (Fin 0), makeNum (Fin 1)}"
  by (simp add: identityRules_def Let_def)

lemma simplifyTop_Done_cases:
  assumes "simplifyTop powf (Node k c x lt rt) = Done q"
  shows "q = Node k c x lt rt \<or> q = lt \<or> q = rt \<or> (\<exists>v. q = makeNum v)"
proof (cases "k = CHR ''F''")
  case True
  with assms show ?thesis by (auto split: option.splits if_splits)
next
  case notF: False
  show ?thesis
  proof (cases "k = CHR ''O''")
    case False
    with assms notF show ?thesis by simp
  next
    case True
    have "q = identityRules k c x lt rt \<or> (\<exists>v. q = makeNum v)"
      using assms True mulMerge_weight
      by (auto simp: mulMerge_def Let_def split: option.splits if_splits prod.splits)
    then show ?thesis using identityRules_cases[of k c x lt rt] by auto
  qed
qed

lemma simplifyTop_weight:
  "(simplifyTop powf p = Again q \<longrightarrow> weight q < weight p) \<and>
   (simplifyTop powf p = Done q \<longrightarrow> weight q \<le> weight p)"
proof (cases p)
  case Null
  then show ?thesis by simp
next
  case (Node k c x lt rt)
  have dn: "weight q \<le> weight p" if "simplifyTop powf p = Done q"
    using simplifyTop_Done_cases[of powf k c x lt rt q] that unfolding Node
    by (auto simp: makeNum_def)
  have again: "weight q < weight p" if a: "simplifyTop powf p = Again q"
  proof -
    from a Node have k: "k = CHR ''O''" by (auto split: if_splits option.splits)
    from a have "addMerge p = Some q \<or> mulMerge p = Some (Again q)"
      unfolding Node using k by (auto split: if_splits option.splits prod.splits)
    then show ?thesis using addMerge_weight[of p q] mulMerge_weight[of p "Again q"] by auto
  qed
  show ?thesis using dn again by blast
qed

lemma simplifyNode_weight:
  "simplifyNode_dom (powf, p) \<Longrightarrow> weight (simplifyNode powf p) \<le> weight p"
proof (induction powf p rule: simplifyNode.pinduct)
  case (1 powf)
  then show ?case by (simp add: simplifyNode.psimps)
next
  case (2 powf k c x lt rt)
  let ?p' = "Node k c x (simplifyNode powf lt) (simplifyNode powf rt)"
  have w: "weight ?p' \<le> weight (Node k c x lt rt)"
    using 2(2,3) by simp
  show ?case
  proof (cases "simplifyTop powf ?p'")
    case (Done q)
    then have "weight q \<le> weight ?p'" using simplifyTop_weight[of powf ?p' q] by simp
    then show ?thesis using w Done 2(1) by (simp add: simplifyNode.psimps)
  next
    case (Again q)
    then have "weight q < weight ?p'" using simplifyTop_weight[of powf ?p' q] by simp
    moreover have "weight (simplifyNode powf q) \<le> weight q"
      using 2(4)[OF Again] .
    ultimately show ?thesis using w Again 2(1) by (simp add: simplifyNode.psimps)
  qed
qed

termination simplifyNode
proof (relation "measure (\<lambda>(powf, p). weight p)")
  show "wf (measure (\<lambda>(powf, p). weight p))" by simp
next
  fix powf :: "dbl \<Rightarrow> dbl \<Rightarrow> dbl" and k c x lt rt
  show "((powf, lt), (powf, Node k c x lt rt)) \<in> measure (\<lambda>(powf, p). weight p)" by simp
  show "((powf, rt), (powf, Node k c x lt rt)) \<in> measure (\<lambda>(powf, p). weight p)" by simp
next
  fix powf :: "dbl \<Rightarrow> dbl \<Rightarrow> dbl" and k c x lt rt q
  assume a: "simplifyTop powf (Node k c x (simplifyNode powf lt) (simplifyNode powf rt)) = Again q"
    and dl: "simplifyNode_dom (powf, lt)" and dr: "simplifyNode_dom (powf, rt)"
  let ?p' = "Node k c x (simplifyNode powf lt) (simplifyNode powf rt)"
  have "weight q < weight ?p'" using simplifyTop_weight[of powf ?p' q] a by simp
  moreover have "weight ?p' \<le> weight (Node k c x lt rt)"
    using simplifyNode_weight[OF dl] simplifyNode_weight[OF dr] by simp
  ultimately show "((powf, q), (powf, Node k c x lt rt)) \<in> measure (\<lambda>(powf, p). weight p)"
    by simp
qed



text \<open>\<open>ExprTree::simplify\<close>: simplify the root, then \<open>updateCaches\<close>.\<close>

definition simplify :: "(dbl \<Rightarrow> dbl \<Rightarrow> dbl) \<Rightarrow> (dbl \<Rightarrow> string) \<Rightarrow> ExprTree \<Rightarrow> ExprTree" where
  "simplify powf oss T =
     (let r = simplifyNode powf (root T) in
      \<lparr>root = r, postfixRaw = toPostfix_dfs oss r, infixCache = toInfix_dfs oss r\<rparr>)"

section \<open>Properties\<close>

subsection \<open>Serializer and parser\<close>

lemma digit_emit:
  assumes "oneDigit x"
  obtains n :: nat where "n \<le> 9" "x = Fin (real n)" "char_of (48 + int_cast x) = char_of (48 + n)"
proof -
  from assms obtain r where x: "x = Fin r" and r: "0 \<le> r" "r \<le> 9"
    by (cases x) (auto simp: oneDigit_def)
  have ic: "int_cast x = \<lfloor>r\<rfloor>" using r by (simp add: x int_cast_def)
  from assms have "deq (Fin r) (Fin (real_of_int (int_cast x)))" by (simp add: oneDigit_def x)
  then have ri: "r = real_of_int \<lfloor>r\<rfloor>" unfolding ic by simp
  define n where "n = nat \<lfloor>r\<rfloor>"
  have k: "0 \<le> \<lfloor>r\<rfloor>" using r(1) by simp
  have rn: "r = real n" using ri k by (simp add: n_def)
  have "n \<le> 9" using r(2) rn by simp
  moreover have "char_of (48 + int_cast x) = char_of (48 + n)"
  proof -
    have "48 + int_cast x = int (48 + n)" using k by (simp add: n_def ic)
    then show ?thesis by (simp only: char_of_nat)
  qed
  ultimately show ?thesis using rn x that by blast
qed

lemma digit_char_props:
  assumes "n \<le> (9::nat)"
  shows "\<not> isSpace (char_of (48 + n))" "isDigit (char_of (48 + n))"
    "(of_char (char_of (48 + n)) :: nat) - 48 = n"
proof -
  have v: "(of_char (char_of (48 + n)) :: nat) = 48 + n" using assms by simp
  show "isDigit (char_of (48 + n))" unfolding isDigit_def v using assms by simp
  show "(of_char (char_of (48 + n)) :: nat) - 48 = n" unfolding v by simp
  have "(of_char c :: nat) \<in> {32, 9, 13, 10}" if "isSpace c" for c
    using that by (auto simp: isSpace_def)
  then show "\<not> isSpace (char_of (48 + n))" using v assms by fastforce
qed

lemma lower_props:
  assumes "isLower c"
  shows "\<not> isSpace c" "\<not> isDigit c"
proof -
  have "(of_char c :: nat) \<in> {32, 9, 13, 10}" if "isSpace c"
    using that by (auto simp: isSpace_def)
  then show "\<not> isSpace c" using assms by (auto simp: isLower_def)
  show "\<not> isDigit c" using assms by (auto simp: isLower_def isDigit_def)
qed

lemma op_props:
  assumes "isOp c"
  shows "\<not> isSpace c" "\<not> isDigit c" "\<not> isLower c"
  using assms by (auto simp: isOp_def isSpace_def isDigit_def isLower_def)

lemma oneDigit_numeral:
  "oneDigit (Fin 2)"
  by (simp add: oneDigit_def int_cast_def)

text \<open>
  Reading the postfix text of a parseable tree pushes one node on the stack, and that
  node is structurally equal to the tree.
\<close>

lemma parseLoop_toPostfix:
  "parseable t \<Longrightarrow>
     \<exists>t'. treesEqual t' t \<and>
       (\<forall>cs st. parseLoop (toPostfix_dfs oss t @ cs) st = parseLoop cs (t' # st))"
proof (induction t)
  case Null
  then show ?case by simp
next
  case (Node k c x lt rt)
  show ?case
  proof (cases "k = CHR ''N''")
    case True
    with Node.prems have h: "oneDigit x" by simp
    from digit_emit[OF h] obtain n :: nat where
      n: "n \<le> 9" "x = Fin (real n)" "char_of (48 + int_cast x) = char_of (48 + n)" .
    let ?t = "Node (CHR ''N'') (CHR 0x00) x Null Null"
    have "treesEqual ?t (Node k c x lt rt)" using True n(2) by simp
    moreover have "parseLoop (toPostfix_dfs oss (Node k c x lt rt) @ cs) st = parseLoop cs (?t # st)"
      for cs st
      using True h n digit_char_props[OF n(1)] by (simp add: oneDigit_def)
    ultimately show ?thesis by blast
  next
    case notN: False
    show ?thesis
    proof (cases "k = CHR ''V''")
      case True
      with Node.prems notN have lc: "isLower c" by simp
      let ?t = "Node (CHR ''V'') c (Fin 0) Null Null"
      have "treesEqual ?t (Node k c x lt rt)" using True by simp
      moreover have "parseLoop (toPostfix_dfs oss (Node k c x lt rt) @ cs) st = parseLoop cs (?t # st)"
        for cs st
        using True lc lower_props[OF lc] by simp
      ultimately show ?thesis by blast
    next
      case notV: False
      with Node.prems notN have k: "k = CHR ''O''" and oc: "isOp c"
        and pl: "parseable lt" and pr: "parseable rt" by simp_all
      from Node.IH(1)[OF pl] obtain a where
        a: "treesEqual a lt"
           "\<And>cs st. parseLoop (toPostfix_dfs oss lt @ cs) st = parseLoop cs (a # st)"
        by blast
      from Node.IH(2)[OF pr] obtain b where
        b: "treesEqual b rt"
           "\<And>cs st. parseLoop (toPostfix_dfs oss rt @ cs) st = parseLoop cs (b # st)"
        by blast
      let ?t = "Node (CHR ''O'') c (Fin 0) a b"
      have "treesEqual ?t (Node k c x lt rt)" using k a(1) b(1) by simp
      moreover have "parseLoop (toPostfix_dfs oss (Node k c x lt rt) @ cs) st = parseLoop cs (?t # st)"
        for cs st
        using k a(2) b(2) op_props[OF oc] oc by simp
      ultimately show ?thesis by blast
    qed
  qed
qed

text \<open>
  C1 (as stated, refuted). The claim promises the round trip for every node kind,
  function nodes included. The tree \<open>sin(x)\<close> is written as \<open>xsin\<close>, which the parser reads
  as four variables and rejects: the stack holds four entries at the end.
\<close>

theorem roundtrip_func_counterexample:
  "buildFromPostfixChars (\<lambda>x. [])
     (toPostfix (\<lambda>x. [])
        \<lparr>root = Node (CHR ''F'') (CHR ''s'') (Fin 0) (Node (CHR ''V'') (CHR ''x'') (Fin 0) Null Null) Null,
         postfixRaw = [], infixCache = []\<rparr>)
   = Inl MalformedExpression"
  by (simp add: buildFromPostfixChars_def toPostfix_def funcNameFromCode_def
      isSpace_def isDigit_def isLower_def)

text \<open>
  C1 (amended). For every non-empty tree without function nodes whose number leaves
  are integers from 0 to 9, whose variables are lower-case letters and whose operators
  are among \<open>+ - * / ^\<close>, parsing the postfix text of the tree succeeds and the parsed
  tree is structurally equal (\<open>treesEqual\<close>) to the tree.
\<close>

theorem roundtrip_parseable:
  assumes "parseable (root T)"
  shows "\<exists>T'. buildFromPostfixChars oss (toPostfix oss T) = Inr T' \<and> treesEqual (root T') (root T)"
proof -
  from parseLoop_toPostfix[OF assms, of oss] obtain t' where
    t: "treesEqual t' (root T)"
       "\<And>cs st. parseLoop (toPostfix_dfs oss (root T) @ cs) st = parseLoop cs (t' # st)"
    by blast
  from t(2)[of "[]" "[]"] have "parseLoop (toPostfix_dfs oss (root T)) [] = Inr [t']" by simp
  then show ?thesis using t(1) by (simp add: buildFromPostfixChars_def toPostfix_def)
qed

theorem roundtrip_parseable_witness:
  "parseable (root \<lparr>root = makeOp (CHR ''+'') (makeNum (Fin 2)) (makeVar (CHR ''x'')),
       postfixRaw = [], infixCache = []\<rparr>) \<and>
   (\<exists>T'. buildFromPostfixChars (\<lambda>x. [])
       (toPostfix (\<lambda>x. []) \<lparr>root = makeOp (CHR ''+'') (makeNum (Fin 2)) (makeVar (CHR ''x'')),
          postfixRaw = [], infixCache = []\<rparr>) = Inr T' \<and>
      treesEqual (root T') (makeOp (CHR ''+'') (makeNum (Fin 2)) (makeVar (CHR ''x''))))"
proof -
  have p: "parseable (root \<lparr>root = makeOp (CHR ''+'') (makeNum (Fin 2)) (makeVar (CHR ''x'')),
       postfixRaw = [], infixCache = []\<rparr>)"
    by (simp add: makeOp_def makeNum_def makeVar_def isOp_def isLower_def oneDigit_numeral)
  from roundtrip_parseable[OF p, of "\<lambda>x. []"] p show ?thesis by simp
qed

text \<open>
  C2 (as stated, refuted). The serializer does not append the one-letter code of a
  function node: for \<open>sin(x)\<close> it writes \<open>xsin\<close>, not \<open>xs\<close>.
\<close>

theorem toPostfix_func_counterexample:
  "toPostfix_dfs (\<lambda>x. []) (Node (CHR ''F'') (CHR ''s'') (Fin 0) (makeVar (CHR ''x'')) Null)
     \<noteq> toPostfix_dfs (\<lambda>x. []) (makeVar (CHR ''x'')) @ [CHR ''s'']"
  by (simp add: makeVar_def funcNameFromCode_def)

text \<open>
  C2 (amended). For every function node the serializer writes the postfix text of the
  child followed by the name that \<open>funcNameFromCode\<close> gives for the node's code:
  \<open>sin\<close>, \<open>cos\<close>, \<open>tan\<close>, \<open>ln\<close>, and \<open>func?\<close> for any other code.
\<close>

theorem toPostfix_func_name:
  "toPostfix_dfs oss (Node (CHR ''F'') c x lt rt) = toPostfix_dfs oss lt @ funcNameFromCode c
   \<and> funcNameFromCode (CHR ''s'') = ''sin'' \<and> funcNameFromCode (CHR ''c'') = ''cos''
   \<and> funcNameFromCode (CHR ''t'') = ''tan'' \<and> funcNameFromCode (CHR ''l'') = ''ln''
   \<and> (c \<notin> {CHR ''s'', CHR ''c'', CHR ''t'', CHR ''l''} \<longrightarrow> funcNameFromCode c = ''func?'')"
  by (simp add: funcNameFromCode_def)

theorem toPostfix_func_name_witness:
  "CHR ''q'' \<notin> {CHR ''s'', CHR ''c'', CHR ''t'', CHR ''l''} \<and> funcNameFromCode (CHR ''q'') = ''func?''"
  using toPostfix_func_name [of "\<lambda>x. []" "CHR ''q''" "Fin 0" Null Null] by simp

subsection \<open>Lemmas on the store\<close>

lemma tree_at_frame:
  "tree_at h p t \<Longrightarrow> (\<forall>a \<in> addrs h p t. h' a = h a) \<Longrightarrow>
     tree_at h' p t \<and> addrs h' p t = addrs h p t"
proof (induction t arbitrary: p)
  case Null
  then show ?case by (cases p) simp_all
next
  case (Node k c x lt rt)
  from Node.prems(1) obtain a cl where p: "p = Some a" and ha: "h a = Some cl"
    and f: "c_kind cl = k" "c_ch cl = c" "c_num cl = x"
    and tl: "tree_at h (c_l cl) lt" and tr: "tree_at h (c_r cl) rt"
    by (cases p) (auto split: option.splits)
  have ad: "addrs h p (Node k c x lt rt) = {a} \<union> addrs h (c_l cl) lt \<union> addrs h (c_r cl) rt"
    by (simp add: p ha)
  from Node.prems(2) ad have h'a: "h' a = Some cl" using ha by simp
  from Node.prems(2) ad have "\<forall>b \<in> addrs h (c_l cl) lt. h' b = h b"
    and "\<forall>b \<in> addrs h (c_r cl) rt. h' b = h b" by auto
  with Node.IH(1)[OF tl] Node.IH(2)[OF tr]
  have "tree_at h' (c_l cl) lt" "addrs h' (c_l cl) lt = addrs h (c_l cl) lt"
    "tree_at h' (c_r cl) rt" "addrs h' (c_r cl) rt = addrs h (c_r cl) rt" by simp_all
  then show ?case using f by (simp add: p ha h'a)
qed

lemma addrs_dom: "tree_at h p t \<Longrightarrow> addrs h p t \<subseteq> dom h"
proof (induction t arbitrary: p)
  case Null
  then show ?case by simp
next
  case (Node k c x lt rt)
  then show ?case by (cases p) (auto split: option.splits)
qed

lemma cloneTreeH_correct:
  "tree_at (cells s) p t \<Longrightarrow> dom (cells s) \<subseteq> {..<nxt s} \<Longrightarrow> depth t < n \<Longrightarrow>
     \<exists>q s'. cloneTreeH n s p = Some (q, s') \<and> tree_at (cells s') q t
       \<and> addrs (cells s') q t \<subseteq> {nxt s..<nxt s'}
       \<and> (\<forall>a<nxt s. cells s' a = cells s a) \<and> nxt s \<le> nxt s'
       \<and> dom (cells s') \<subseteq> {..<nxt s'}"
proof (induction t arbitrary: n s p)
  case Null
  then obtain m where "n = Suc m" by (cases n) auto
  moreover from Null.prems(1) have "p = None" by (cases p) simp_all
  ultimately show ?case using Null.prems(2) by simp
next
  case (Node k c x lt rt)
  let ?h = "cells s"
  from Node.prems(1) obtain a cl where p: "p = Some a" and ha: "?h a = Some cl"
    and f: "c_kind cl = k" "c_ch cl = c" "c_num cl = x"
    and tl: "tree_at ?h (c_l cl) lt" and tr: "tree_at ?h (c_r cl) rt"
    by (cases p) (auto split: option.splits)
  from Node.prems(3) obtain m where n: "n = Suc m" and dl: "depth lt < m" and dr: "depth rt < m"
    by (cases n) auto
  define q where "q = nxt s"
  define s0 where "s0 = snd (new_Node s)"
  have nn: "new_Node s = (q, s0)" by (simp add: s0_def q_def new_Node_def)
  define s1 where "s1 = assign q cl s0"
  have s1: "cells s1 = (cells s)(q \<mapsto> cl)" "nxt s1 = Suc q"
    by (simp_all add: s1_def s0_def assign_def new_Node_def q_def)
  have inv1: "dom (cells s1) \<subseteq> {..<nxt s1}"
    using Node.prems(2) by (auto simp: s1 q_def)
  have below: "\<And>b. b \<in> dom ?h \<Longrightarrow> b < q" using Node.prems(2) by (auto simp: q_def)
  have agree1: "\<forall>b<q. cells s1 b = ?h b" by (simp add: s1)
  have tl1: "tree_at (cells s1) (c_l cl) lt"
    using tree_at_frame[OF tl, of "cells s1"] addrs_dom[OF tl] below agree1 by blast
  from Node.IH(1)[OF tl1 inv1 dl] obtain lq s2 where
    c2: "cloneTreeH m s1 (c_l cl) = Some (lq, s2)" and t2: "tree_at (cells s2) lq lt"
    and a2: "addrs (cells s2) lq lt \<subseteq> {nxt s1..<nxt s2}"
    and ag2: "\<forall>b<nxt s1. cells s2 b = cells s1 b" and le2: "nxt s1 \<le> nxt s2"
    and inv2: "dom (cells s2) \<subseteq> {..<nxt s2}" by blast
  have q2: "cells s2 q = Some cl" using ag2 by (simp add: s1)
  define s3 where "s3 = set_l q lq s2"
  have s3: "cells s3 = (cells s2)(q \<mapsto> cl\<lparr>c_l := lq\<rparr>)" "nxt s3 = nxt s2"
    by (simp_all add: s3_def set_l_def q2)
  have inv3: "dom (cells s3) \<subseteq> {..<nxt s3}"
    using inv2 q2 by (auto simp: s3)
  have agree3: "\<forall>b<q. cells s3 b = ?h b" using ag2 by (simp add: s3 s1)
  have tr3: "tree_at (cells s3) (c_r cl) rt"
    using tree_at_frame[OF tr, of "cells s3"] addrs_dom[OF tr] below agree3 by blast
  from Node.IH(2)[OF tr3 inv3 dr] obtain rq s4 where
    c4: "cloneTreeH m s3 (c_r cl) = Some (rq, s4)" and t4: "tree_at (cells s4) rq rt"
    and a4: "addrs (cells s4) rq rt \<subseteq> {nxt s3..<nxt s4}"
    and ag4: "\<forall>b<nxt s3. cells s4 b = cells s3 b" and le4: "nxt s3 \<le> nxt s4"
    and inv4: "dom (cells s4) \<subseteq> {..<nxt s4}" by blast
  have qlt: "q < nxt s3" using le2 by (simp add: s3 s1)
  have q4: "cells s4 q = Some (cl\<lparr>c_l := lq\<rparr>)" using ag4 qlt by (simp add: s3)
  define s5 where "s5 = set_r q rq s4"
  have s5: "cells s5 = (cells s4)(q \<mapsto> cl\<lparr>c_l := lq, c_r := rq\<rparr>)" "nxt s5 = nxt s4"
    by (simp_all add: s5_def set_r_def q4)
  have aq: "a < q" using below[of a] ha by (simp add: domI)
  have pa1: "cells s1 a = Some cl" using aq ha by (simp add: s1)
  have pa3: "cells s3 a = Some cl" using aq ha agree3 by simp
  have res: "cloneTreeH n s p = Some (Some q, s5)"
    using c2 c4 ha nn pa1 pa3
    by (simp add: n p Let_def s1_def[symmetric] s3_def[symmetric] s5_def[symmetric])
  have e23: "cells s3 b = cells s2 b" if "b \<in> addrs (cells s2) lq lt" for b
    using that a2 by (auto simp: s3 s1)
  have tl3: "tree_at (cells s3) lq lt \<and> addrs (cells s3) lq lt = addrs (cells s2) lq lt"
    using tree_at_frame[OF t2, of "cells s3"] e23 by blast
  have e34: "cells s4 b = cells s3 b" if "b \<in> addrs (cells s3) lq lt" for b
    using that tl3 a2 ag4 by (auto simp: s3)
  have tl4: "tree_at (cells s4) lq lt \<and> addrs (cells s4) lq lt = addrs (cells s2) lq lt"
    using tree_at_frame[of "cells s3" lq lt "cells s4"] tl3 e34 by auto
  have e45: "cells s5 b = cells s4 b" if "b \<in> addrs (cells s4) lq lt" for b
    using that tl4 a2 by (auto simp: s5 s1)
  have tl5: "tree_at (cells s5) lq lt \<and> addrs (cells s5) lq lt = addrs (cells s2) lq lt"
    using tree_at_frame[of "cells s4" lq lt "cells s5"] tl4 e45 by auto
  have e45r: "cells s5 b = cells s4 b" if "b \<in> addrs (cells s4) rq rt" for b
    using that a4 qlt by (auto simp: s5)
  have tr5: "tree_at (cells s5) rq rt \<and> addrs (cells s5) rq rt = addrs (cells s4) rq rt"
    using tree_at_frame[OF t4, of "cells s5"] e45r by blast
  have t5: "tree_at (cells s5) (Some q) (Node k c x lt rt)"
    using tl5 tr5 f by (simp add: s5)
  have a5: "addrs (cells s5) (Some q) (Node k c x lt rt) \<subseteq> {nxt s..<nxt s5}"
    using tl5 tr5 a2 a4 le2 le4 by (auto simp: s5 s3 s1 q_def)
  have ag5: "\<forall>b<nxt s. cells s5 b = cells s b"
    using ag4 ag2 le2 by (simp add: s5 s3 s1 q_def)
  have le5: "nxt s \<le> nxt s5" using le2 le4 by (simp add: s5 s3 s1 q_def)
  have inv5: "dom (cells s5) \<subseteq> {..<nxt s5}" using inv4 q4 by (auto simp: s5)
  show ?case using res t5 a5 ag5 le5 inv5 by blast
qed


subsection \<open>Lemmas on the simplifier\<close>

lemma simplifyNode_idem: "simplifyNode powf (simplifyNode powf p) = simplifyNode powf p"
proof (induction powf p rule: simplifyNode.induct)
  case (1 powf)
  then show ?case by simp
next
  case (2 powf k c x lt rt)
  note IH = this
  let ?l = "simplifyNode powf lt" and ?r = "simplifyNode powf rt"
  let ?p' = "Node k c x ?l ?r"
  show ?case
  proof (cases "simplifyTop powf ?p'")
    case (Again q)
    with IH(3)[OF Again] show ?thesis by simp
  next
    case (Done q)
    then have sp: "simplifyNode powf (Node k c x lt rt) = q" by simp
    have fx: "simplifyNode powf ?p' = q" using Done IH(1,2) by simp
    from simplifyTop_Done_cases[OF Done]
    consider "q = ?p'" | "q = ?l" | "q = ?r" | v where "q = makeNum v" by blast
    then have "simplifyNode powf q = q"
    proof cases
      case 1
      with fx show ?thesis by simp
    next
      case 2
      with IH(1) show ?thesis by simp
    next
      case 3
      with IH(2) show ?thesis by simp
    next
      case 4
      then show ?thesis by (simp add: makeNum_def)
    qed
    then show ?thesis using sp by simp
  qed
qed

lemma treesEqual_refl: "treesEqual p p \<longleftrightarrow> finiteNums p"
proof (induction p)
  case Null
  then show ?case by simp
next
  case (Node k c x lt rt)
  show ?case
  proof (cases "k = CHR ''N''")
    case True
    then show ?thesis by (cases x) (simp_all add: dsub_def)
  next
    case False
    with Node show ?thesis by auto
  qed
qed

lemma dle_not_dless: "dle a b \<Longrightarrow> \<not> dless b a"
  by (cases a; cases b) auto

subsection \<open>Evaluation\<close>

text \<open>
  C4. When the child of an \<open>ln\<close> node evaluates to \<open>x\<close>, the node fails with DomainError
  iff \<open>x <= 0\<close> and otherwise evaluates to \<open>log(x)\<close>. When the children of a \<open>/\<close> node
  evaluate to \<open>x\<close> and \<open>y\<close>, the node fails with DivisionByZero iff \<open>fabs(y) < 1e-12\<close> and
  otherwise evaluates to \<open>x / y\<close>. A \<open>^\<close> node evaluates to \<open>pow(x, y)\<close> with no guard.
  The comparisons and the operations are those of doubles, \<open>1e-12\<close> is the double
  literal, and \<open>x\<close> and \<open>y\<close> may be infinite or NaN.
\<close>

theorem eval_guards:
  assumes "eval_dfs powf vars lt = Inr x" and "eval_dfs powf vars rt = Inr y"
  shows "(eval_dfs powf vars (Node (CHR ''F'') (CHR ''l'') v lt rt') = Inl DomainError
          \<longleftrightarrow> dle x (Fin 0))
    \<and> (\<not> dle x (Fin 0) \<longrightarrow> eval_dfs powf vars (Node (CHR ''F'') (CHR ''l'') v lt rt') = Inr (dlog x))
    \<and> (eval_dfs powf vars (Node (CHR ''O'') (CHR ''/'') v lt rt) = Inl DivisionByZero
          \<longleftrightarrow> dless (dabs y) lit_1e_12)
    \<and> (\<not> dless (dabs y) lit_1e_12 \<longrightarrow>
          eval_dfs powf vars (Node (CHR ''O'') (CHR ''/'') v lt rt) = Inr (ddiv x y))
    \<and> eval_dfs powf vars (Node (CHR ''O'') (CHR ''^'') v lt rt) = Inr (powf x y)"
  using assms by simp

text \<open>
  The witness is at the boundary of the guard: the divisor is the double \<open>1e-12\<close>
  itself, which is not less than \<open>1e-12\<close>, so the division is done.
\<close>

theorem eval_guards_witness:
  "eval_dfs (\<lambda>a b. NaN) Map.empty (makeNum (Fin 2)) = Inr (Fin 2)
   \<and> eval_dfs (\<lambda>a b. NaN) Map.empty (makeNum lit_1e_12) = Inr lit_1e_12
   \<and> \<not> dle (Fin 2) (Fin 0) \<and> \<not> dless (dabs lit_1e_12) lit_1e_12
   \<and> eval_dfs (\<lambda>a b. NaN) Map.empty (Node (CHR ''F'') (CHR ''l'') (Fin 0) (makeNum (Fin 2)) Null)
        = Inr (Fin (ln 2))
   \<and> eval_dfs (\<lambda>a b. NaN) Map.empty
        (Node (CHR ''O'') (CHR ''/'') (Fin 0) (makeNum (Fin 2)) (makeNum lit_1e_12))
        = Inr (ddiv (Fin 2) lit_1e_12)
   \<and> isFin (ddiv (Fin 2) lit_1e_12)
   \<and> eval_dfs (\<lambda>a b. NaN) Map.empty
        (Node (CHR ''O'') (CHR ''^'') (Fin 0) (makeNum (Fin 2)) (makeNum lit_1e_12)) = Inr NaN"
proof -
  have a: "eval_dfs (\<lambda>a b. NaN) Map.empty (makeNum (Fin 2)) = Inr (Fin 2)"
    and b: "eval_dfs (\<lambda>a b. NaN) Map.empty (makeNum lit_1e_12) = Inr lit_1e_12"
    by (simp_all add: makeNum_def)
  have c: "\<not> dle (Fin 2) (Fin 0)" "\<not> dless (dabs lit_1e_12) lit_1e_12"
    by (simp_all add: lit_1e_12_def)
  have d: "isFin (ddiv (Fin 2) lit_1e_12)"
    by (simp add: lit_1e_12_def dbl_of_def)
  from eval_guards[OF a b, of "Fin 0" Null] a b c d show ?thesis by simp
qed

subsection \<open>Composition\<close>

text \<open>
  C9 (as stated, refuted). With two empty trees and the character \<open>%\<close>, \<open>Compose\<close>
  reports the invalid operator, not the empty operand: the operator is tested first.
\<close>

theorem Compose_empty_counterexample:
  "root emptyTree = Null \<and>
   Compose emptyTree emptyTree (CHR ''%'') None = (emptyTree, Some InvalidOperator)"
  by (simp add: Compose_def emptyTree_def isOp_def)

text \<open>
  C9 (amended). \<open>Compose\<close> fails with InvalidOperator iff \<open>op\<close> is not one of
  \<open>+ - * / ^\<close>; it fails with EmptyOperand iff \<open>op\<close> is one of them and \<open>A\<close> or \<open>B\<close> is
  empty; otherwise it returns the operator node over the clones of the two roots and
  writes no message. A failure returns the empty tree.
\<close>

theorem Compose_contract:
  "(isOp op \<longleftrightarrow> op \<in> {CHR ''+'', CHR ''-'', CHR ''*'', CHR ''/'', CHR ''^''})
   \<and> (Compose A B op None = (emptyTree, Some InvalidOperator) \<longleftrightarrow> \<not> isOp op)
   \<and> (Compose A B op None = (emptyTree, Some EmptyOperand)
        \<longleftrightarrow> isOp op \<and> (root A = Null \<or> root B = Null))
   \<and> (isOp op \<and> root A \<noteq> Null \<and> root B \<noteq> Null \<longrightarrow>
        Compose A B op None =
          (\<lparr>root = makeOp op (cloneTree (root A)) (cloneTree (root B)),
            postfixRaw = postfixRaw A @ postfixRaw B @ [op], infixCache = []\<rparr>, None))"
  by (auto simp: Compose_def isOp_def makeOp_def emptyTree_def)

theorem Compose_contract_witness:
  "isOp (CHR ''+'') \<and> root \<lparr>root = makeVar (CHR ''a''), postfixRaw = ''a'', infixCache = ''a''\<rparr> \<noteq> Null
   \<and> root \<lparr>root = makeNum (Fin 1), postfixRaw = ''1'', infixCache = ''1''\<rparr> \<noteq> Null
   \<and> Compose \<lparr>root = makeVar (CHR ''a''), postfixRaw = ''a'', infixCache = ''a''\<rparr>
        \<lparr>root = makeNum (Fin 1), postfixRaw = ''1'', infixCache = ''1''\<rparr> (CHR ''+'') None
      = (\<lparr>root = makeOp (CHR ''+'') (makeVar (CHR ''a'')) (makeNum (Fin 1)),
          postfixRaw = ''a1+'', infixCache = []\<rparr>, None)"
  using Compose_contract[of "CHR ''+''" "\<lparr>root = makeVar (CHR ''a''), postfixRaw = ''a'', infixCache = ''a''\<rparr>"
      "\<lparr>root = makeNum (Fin 1), postfixRaw = ''1'', infixCache = ''1''\<rparr>"]
  by (simp add: makeVar_def makeNum_def)

subsection \<open>Differentiation\<close>

text \<open>
  C3 (the code at the failing input). \<open>makeFunc\<close> gives a function node the code 0 for
  a name other than sin, cos, tan and ln. For such a node over the variable \<open>x\<close>,
  \<open>DerivativeTree\<close> writes the message but returns the tree \<open>Number(0)\<close>: its root is not
  null, which is what the caller tests.
\<close>

theorem DerivativeTree_unknown_function:
  "DerivativeTree \<lparr>root = makeFunc ''exp'' (makeVar (CHR ''x'')),
       postfixRaw = [], infixCache = []\<rparr> (CHR ''x'') None
   = (\<lparr>root = makeNum (Fin 0), postfixRaw = ''<derivative>'', infixCache = []\<rparr>,
      Some UnsupportedFunction)
   \<and> makeFunc ''exp'' (makeVar (CHR ''x''))
       = Node (CHR ''F'') (CHR 0x00) (Fin 0) (makeVar (CHR ''x'')) Null
   \<and> makeNum (Fin 0) \<noteq> Null"
  by (simp add: DerivativeTree_def makeFunc_def funcCodeFromName_def makeVar_def makeNum_def)

text \<open>
  C8 (as stated, refuted). For the exponent \<open>n = 1e-13\<close>, which is neither 0 nor 1, the
  derivative of \<open>x ^ n\<close> is \<open>Number(0)\<close> and not \<open>n * x^(n-1) * dx\<close>.
\<close>

theorem derivNode_power_counterexample:
  "(1 / 10 ^ 13 :: real) \<noteq> 0 \<and> (1 / 10 ^ 13 :: real) \<noteq> 1 \<and>
   fst (derivNode (makeOp (CHR ''^'') (makeVar (CHR ''x'')) (makeNum (Fin (1 / 10 ^ 13)))) (CHR ''x'') None)
     = makeNum (Fin 0) \<and>
   fst (derivNode (makeOp (CHR ''^'') (makeVar (CHR ''x'')) (makeNum (Fin (1 / 10 ^ 13)))) (CHR ''x'') None)
     \<noteq> makeOp (CHR ''*'')
          (makeOp (CHR ''*'') (makeNum (Fin (1 / 10 ^ 13)))
             (makeOp (CHR ''^'') (cloneTree (makeVar (CHR ''x''))) (makeNum (Fin (1 / 10 ^ 13 - 1)))))
          (fst (derivNode (makeVar (CHR ''x'')) (CHR ''x'') None))"
  by (simp add: makeOp_def makeVar_def makeNum_def lit_1e_12_def)

text \<open>
  C8 (amended). For a power node whose exponent is a number leaf with value \<open>n\<close> and
  whose base \<open>u\<close> has the derivative \<open>du\<close> (not null), the derivative is \<open>Number(0)\<close> when
  \<open>fabs(n) < 1e-12\<close>, \<open>du\<close> when \<open>fabs(n - 1.0) < 1e-12\<close>, and otherwise the tree
  \<open>(n * clone(u) ^ (n - 1.0)) * du\<close>; the message of the base is passed on. The
  comparisons are those of doubles and \<open>1e-12\<close> is the double literal.
\<close>

theorem derivNode_power_const:
  assumes "derivNode u var err = (du, e1)" and "du \<noteq> Null"
  shows "derivNode (Node (CHR ''O'') (CHR ''^'') x u (Node (CHR ''N'') c n vl vr)) var err =
     ((if dless (dabs n) lit_1e_12 then makeNum (Fin 0)
       else if dless (dabs (dsub n (Fin 1))) lit_1e_12 then du
       else makeOp (CHR ''*'')
              (makeOp (CHR ''*'') (makeNum n)
                 (makeOp (CHR ''^'') (cloneTree u) (makeNum (dsub n (Fin 1))))) du),
      e1)"
proof -
  from assms have "u \<noteq> Null" by (cases u) auto
  then show ?thesis using assms by (simp add: makeNum_def)
qed

text \<open>
  The witness is at the boundary of the first guard: the exponent is the double
  \<open>1e-12\<close> itself, which is not less than \<open>1e-12\<close>, so the product tree is built.
\<close>

theorem derivNode_power_const_witness:
  "derivNode (makeVar (CHR ''x'')) (CHR ''x'') None = (makeNum (Fin 1), None)
   \<and> makeNum (Fin 1) \<noteq> Null
   \<and> \<not> dless (dabs lit_1e_12) lit_1e_12 \<and> \<not> dless (dabs (dsub lit_1e_12 (Fin 1))) lit_1e_12
   \<and> derivNode (Node (CHR ''O'') (CHR ''^'') (Fin 0) (makeVar (CHR ''x''))
        (Node (CHR ''N'') (CHR 0x00) lit_1e_12 Null Null)) (CHR ''x'') None =
     (makeOp (CHR ''*'')
        (makeOp (CHR ''*'') (makeNum lit_1e_12)
           (makeOp (CHR ''^'') (cloneTree (makeVar (CHR ''x''))) (makeNum (dsub lit_1e_12 (Fin 1)))))
        (makeNum (Fin 1)), None)"
proof -
  have a: "derivNode (makeVar (CHR ''x'')) (CHR ''x'') None = (makeNum (Fin 1), None)"
    by (simp add: makeVar_def)
  have b: "makeNum (Fin 1) \<noteq> Null" by (simp add: makeNum_def)
  have c: "\<not> dless (dabs lit_1e_12) lit_1e_12"
    "\<not> dless (dabs (dsub lit_1e_12 (Fin 1))) lit_1e_12"
    by (simp_all add: lit_1e_12_def dsub_def dbl_of_def)
  from derivNode_power_const[OF a b, of "Fin 0" "CHR 0x00" lit_1e_12 Null Null] a b c
  show ?thesis by simp
qed

subsection \<open>Simplifier: constant folding, idempotence, like terms\<close>

text \<open>
  C5 (as stated, refuted). For \<open>2^1023 + 2^1023\<close> the sum overflows: the simplified
  tree is \<open>Number(inf)\<close>, both evaluations give \<open>inf\<close>, and \<open>fabs(inf - inf) < 1e-9\<close> is
  false because \<open>inf - inf\<close> is NaN.
\<close>

theorem constant_fold_counterexample:
  "eval (\<lambda>a b. NaN) (simplify (\<lambda>a b. NaN) (\<lambda>x. [])
       \<lparr>root = makeOp (CHR ''+'') (makeNum (Fin (2 ^ 1023))) (makeNum (Fin (2 ^ 1023))),
        postfixRaw = [], infixCache = []\<rparr>) Map.empty = Inr PInf
   \<and> eval (\<lambda>a b. NaN)
       \<lparr>root = makeOp (CHR ''+'') (makeNum (Fin (2 ^ 1023))) (makeNum (Fin (2 ^ 1023))),
        postfixRaw = [], infixCache = []\<rparr> Map.empty = Inr PInf
   \<and> \<not> dless (dabs (dsub PInf PInf)) (Fin (1 / 10 ^ 9))"
  by (simp add: eval_def simplify_def Let_def makeOp_def makeNum_def foldBinary_def dbl_of_def
      dsub_def)

text \<open>
  C5 (amended). For an operator node with one of the five operators over two number
  leaves \<open>a\<close> and \<open>b\<close>, where the operator is not \<open>/\<close> or \<open>fabs(b) >= 1e-12\<close>, the simplified
  tree and the tree itself both evaluate, under empty bindings, to the same double;
  when that double is finite, the two values differ by less than \<open>1e-9\<close>.
\<close>

theorem constant_fold_eval:
  assumes "root T = Node (CHR ''O'') op x (Node (CHR ''N'') ca a la ra) (Node (CHR ''N'') cb b lb rb)"
    and "isOp op" and "op \<noteq> CHR ''/'' \<or> dle lit_1e_12 (dabs b)"
  shows "\<exists>v. eval powf (simplify powf oss T) Map.empty = Inr v \<and> eval powf T Map.empty = Inr v
           \<and> (isFin v \<longrightarrow> dless (dabs (dsub v v)) (Fin (1 / 10 ^ 9)))"
proof -
  have nd: "op = CHR ''/'' \<Longrightarrow> \<not> dless (dabs b) lit_1e_12"
    using assms(3) dle_not_dless by blast
  obtain r where r: "foldBinary powf op a b = Some r"
    using assms(2) nd by (auto simp: foldBinary_def isOp_def)
  have "simplifyNode powf (root T) = makeNum r"
    unfolding assms(1) using r by simp
  then have 1: "eval powf (simplify powf oss T) Map.empty = Inr r"
    by (simp add: eval_def simplify_def Let_def makeNum_def)
  have 2: "eval powf T Map.empty = Inr r"
    using r assms(2) nd unfolding eval_def assms(1)
    by (auto simp: foldBinary_def isOp_def split: if_splits)
  have 3: "isFin r \<longrightarrow> dless (dabs (dsub r r)) (Fin (1 / 10 ^ 9))"
    by (cases r) simp_all
  show ?thesis using 1 2 3 by blast
qed

theorem constant_fold_eval_witness:
  "root \<lparr>root = Node (CHR ''O'') (CHR ''/'') (Fin 0) (Node (CHR ''N'') (CHR 0x00) (Fin 1) Null Null)
            (Node (CHR ''N'') (CHR 0x00) (Fin 2) Null Null), postfixRaw = ''12/'', infixCache = []\<rparr>
     = Node (CHR ''O'') (CHR ''/'') (Fin 0) (Node (CHR ''N'') (CHR 0x00) (Fin 1) Null Null)
            (Node (CHR ''N'') (CHR 0x00) (Fin 2) Null Null)
   \<and> isOp (CHR ''/'') \<and> dle lit_1e_12 (dabs (Fin 2))
   \<and> eval (\<lambda>a b. NaN) (simplify (\<lambda>a b. NaN) (\<lambda>x. [])
           \<lparr>root = Node (CHR ''O'') (CHR ''/'') (Fin 0) (Node (CHR ''N'') (CHR 0x00) (Fin 1) Null Null)
              (Node (CHR ''N'') (CHR 0x00) (Fin 2) Null Null), postfixRaw = ''12/'', infixCache = []\<rparr>)
           Map.empty = Inr (Fin (1 / 2))
   \<and> isFin (Fin (1 / 2)) \<and> dless (dabs (dsub (Fin (1 / 2)) (Fin (1 / 2)))) (Fin (1 / 10 ^ 9))"
proof -
  let ?T = "\<lparr>root = Node (CHR ''O'') (CHR ''/'') (Fin 0) (Node (CHR ''N'') (CHR 0x00) (Fin 1) Null Null)
            (Node (CHR ''N'') (CHR 0x00) (Fin 2) Null Null), postfixRaw = ''12/'', infixCache = []\<rparr>"
  have a: "root ?T = Node (CHR ''O'') (CHR ''/'') (Fin 0) (Node (CHR ''N'') (CHR 0x00) (Fin 1) Null Null)
            (Node (CHR ''N'') (CHR 0x00) (Fin 2) Null Null)" by simp
  have b: "isOp (CHR ''/'')" by (simp add: isOp_def)
  have d: "dle lit_1e_12 (dabs (Fin 2))" by (simp add: lit_1e_12_def)
  then have c: "CHR ''/'' \<noteq> CHR ''/'' \<or> dle lit_1e_12 (dabs (Fin 2))" by simp
  have e: "eval (\<lambda>a b. NaN) ?T Map.empty = Inr (Fin (1 / 2))"
    by (simp add: eval_def lit_1e_12_def dbl_of_def)
  from constant_fold_eval[OF a b c, of "\<lambda>a b. NaN" "\<lambda>x. []"] a b d e show ?thesis by auto
qed

text \<open>
  C6 (as stated, refuted). The sum \<open>2^1023 + 2^1023\<close> simplifies to \<open>Number(inf)\<close>, and
  \<open>treesEqual\<close> does not hold between \<open>Number(inf)\<close> and itself: \<open>fabs(inf - inf)\<close> is NaN,
  which is not less than \<open>1e-12\<close>.
\<close>

theorem simplify_idempotent_counterexample:
  "root (simplify (\<lambda>a b. NaN) (\<lambda>x. [])
       \<lparr>root = makeOp (CHR ''+'') (makeNum (Fin (2 ^ 1023))) (makeNum (Fin (2 ^ 1023))),
        postfixRaw = [], infixCache = []\<rparr>) = makeNum PInf
   \<and> \<not> treesEqual
       (root (simplify (\<lambda>a b. NaN) (\<lambda>x. []) (simplify (\<lambda>a b. NaN) (\<lambda>x. [])
          \<lparr>root = makeOp (CHR ''+'') (makeNum (Fin (2 ^ 1023))) (makeNum (Fin (2 ^ 1023))),
           postfixRaw = [], infixCache = []\<rparr>)))
       (root (simplify (\<lambda>a b. NaN) (\<lambda>x. [])
          \<lparr>root = makeOp (CHR ''+'') (makeNum (Fin (2 ^ 1023))) (makeNum (Fin (2 ^ 1023))),
           postfixRaw = [], infixCache = []\<rparr>))"
  by (simp add: simplify_def Let_def makeOp_def makeNum_def foldBinary_def dbl_of_def dsub_def)

text \<open>
  C6 (amended). Simplifying a simplified tree gives the same tree, node for node
  (same kinds, characters, numbers and children); the two trees are structurally equal
  (\<open>treesEqual\<close>) exactly when the simplified tree has no infinite or NaN number.
\<close>

theorem simplify_idempotent:
  "simplify powf oss (simplify powf oss T) = simplify powf oss T
   \<and> (treesEqual (root (simplify powf oss (simplify powf oss T))) (root (simplify powf oss T))
        \<longleftrightarrow> finiteNums (root (simplify powf oss T)))"
  by (simp add: simplify_def Let_def simplifyNode_idem treesEqual_refl)

theorem simplify_idempotent_witness:
  "root (simplify (\<lambda>a b. NaN) (\<lambda>x. [])
      \<lparr>root = makeOp (CHR ''+'') (makeVar (CHR ''a'')) (makeVar (CHR ''a'')),
       postfixRaw = ''aa+'', infixCache = []\<rparr>) = makeOp (CHR ''*'') (makeVar (CHR ''a'')) (makeNum (Fin 2))
   \<and> finiteNums (makeOp (CHR ''*'') (makeVar (CHR ''a'')) (makeNum (Fin 2)))
   \<and> treesEqual
       (root (simplify (\<lambda>a b. NaN) (\<lambda>x. []) (simplify (\<lambda>a b. NaN) (\<lambda>x. [])
          \<lparr>root = makeOp (CHR ''+'') (makeVar (CHR ''a'')) (makeVar (CHR ''a'')),
           postfixRaw = ''aa+'', infixCache = []\<rparr>)))
       (makeOp (CHR ''*'') (makeVar (CHR ''a'')) (makeNum (Fin 2)))"
proof -
  let ?T = "\<lparr>root = makeOp (CHR ''+'') (makeVar (CHR ''a'')) (makeVar (CHR ''a'')),
       postfixRaw = ''aa+'', infixCache = []\<rparr>"
  have a: "root (simplify (\<lambda>a b. NaN) (\<lambda>x. []) ?T)
      = makeOp (CHR ''*'') (makeVar (CHR ''a'')) (makeNum (Fin 2))"
    by (simp add: simplify_def Let_def makeOp_def makeVar_def makeNum_def addMerge_def mulMerge_def
        sameBase_def identityRules_def lit_1e_12_def dsub_def dbl_of_def)
  have b: "finiteNums (makeOp (CHR ''*'') (makeVar (CHR ''a'')) (makeNum (Fin 2)))"
    by (simp add: makeOp_def makeVar_def makeNum_def)
  have b': "finiteNums (root (simplify (\<lambda>a b. NaN) (\<lambda>x. []) ?T))"
    unfolding a by (rule b)
  from simplify_idempotent[of "\<lambda>a b. NaN" "\<lambda>x. []" ?T] b'
  have c: "treesEqual
      (root (simplify (\<lambda>a b. NaN) (\<lambda>x. []) (simplify (\<lambda>a b. NaN) (\<lambda>x. []) ?T)))
      (root (simplify (\<lambda>a b. NaN) (\<lambda>x. []) ?T))" by blast
  have c': "treesEqual
      (root (simplify (\<lambda>a b. NaN) (\<lambda>x. []) (simplify (\<lambda>a b. NaN) (\<lambda>x. []) ?T)))
      (makeOp (CHR ''*'') (makeVar (CHR ''a'')) (makeNum (Fin 2)))"
    using c unfolding a .
  show ?thesis using a b c' by blast
qed

text \<open>
  C7. The left-nested sum \<open>(a + a) + a\<close> of three leaves of the same variable simplifies
  to the product \<open>a * 3\<close>.
\<close>

theorem simplify_triple_sum:
  "simplifyNode powf
     (makeOp (CHR ''+'') (makeOp (CHR ''+'') (makeVar a) (makeVar a)) (makeVar a))
   = makeOp (CHR ''*'') (makeVar a) (makeNum (Fin 3))
   \<and> collectAddTerms (makeOp (CHR ''+'') (makeOp (CHR ''*'') (makeVar a) (makeNum (Fin 2))) (makeVar a))
       = [makeOp (CHR ''*'') (makeVar a) (makeNum (Fin 2)), makeVar a]
   \<and> groupAdd (map (\<lambda>ti. (ti, False))
        (map extractCoefAndBase [makeOp (CHR ''*'') (makeVar a) (makeNum (Fin 2)), makeVar a]))
       = [(makeVar a, Fin 3)]"
  by (simp add: makeOp_def makeVar_def makeNum_def addMerge_def mulMerge_def Let_def sameBase_def
      identityRules_def lit_1e_12_def dsub_def dbl_of_def)

subsection \<open>Cloning\<close>

text \<open>
  C10. In a store whose used addresses all lie below \<open>nxt\<close>, cloning the tree \<open>t\<close> at
  \<open>p\<close> with enough fuel succeeds; the copy at \<open>q\<close> is the tree \<open>cloneTree t\<close>, which is \<open>t\<close>
  itself (same kinds, characters and numbers at every node); the tree at \<open>p\<close> is
  unchanged; and no address belongs to both trees. \<open>ExprTree::clone\<close> copies the root
  with \<open>cloneTree\<close> and keeps the two texts. The copy passes \<open>treesEqual\<close> against the
  tree exactly when the tree has no infinite or NaN number.
\<close>

theorem cloneTreeH_fresh_copy:
  assumes "tree_at (cells s) p t" and "dom (cells s) \<subseteq> {..<nxt s}" and "depth t < n"
  shows "(\<exists>q s'. cloneTreeH n s p = Some (q, s')
           \<and> tree_at (cells s') q (cloneTree t) \<and> cloneTree t = t
           \<and> (treesEqual (cloneTree t) t \<longleftrightarrow> finiteNums t)
           \<and> tree_at (cells s') p t
           \<and> addrs (cells s') q (cloneTree t) \<inter> addrs (cells s') p t = {})
       \<and> (treesEqual (root (clone T)) (root T) \<longleftrightarrow> finiteNums (root T))
       \<and> root (clone T) = root T
       \<and> postfixRaw (clone T) = postfixRaw T \<and> infixCache (clone T) = infixCache T"
proof -
  from cloneTreeH_correct[OF assms] obtain q s' where
    c: "cloneTreeH n s p = Some (q, s')" and t: "tree_at (cells s') q t"
    and a: "addrs (cells s') q t \<subseteq> {nxt s..<nxt s'}"
    and ag: "\<forall>a<nxt s. cells s' a = cells s a" by blast
  have below: "addrs (cells s) p t \<subseteq> {..<nxt s}"
    using addrs_dom[OF assms(1)] assms(2) by blast
  then have "\<forall>a \<in> addrs (cells s) p t. cells s' a = cells s a" using ag by auto
  from tree_at_frame[OF assms(1) this]
  have p: "tree_at (cells s') p t" "addrs (cells s') p t = addrs (cells s) p t" by simp_all
  have "x \<notin> addrs (cells s) p t" if "x \<in> addrs (cells s') q t" for x
  proof -
    from that a have "nxt s \<le> x" by auto
    then show ?thesis using below by auto
  qed
  then have "addrs (cells s') q t \<inter> addrs (cells s') p t = {}"
    unfolding p(2) by blast
  then have 1: "\<exists>q s'. cloneTreeH n s p = Some (q, s')
           \<and> tree_at (cells s') q (cloneTree t) \<and> cloneTree t = t
           \<and> (treesEqual (cloneTree t) t \<longleftrightarrow> finiteNums t)
           \<and> tree_at (cells s') p t
           \<and> addrs (cells s') q (cloneTree t) \<inter> addrs (cells s') p t = {}"
    using c t p(1) by (simp add: cloneTree_id treesEqual_refl)
  have 2: "(treesEqual (root (clone T)) (root T) \<longleftrightarrow> finiteNums (root T))
           \<and> root (clone T) = root T
           \<and> postfixRaw (clone T) = postfixRaw T \<and> infixCache (clone T) = infixCache T"
    by (simp add: clone_def cloneTree_id treesEqual_refl)
  show ?thesis using 1 2 by blast
qed

theorem cloneTreeH_fresh_copy_witness:
  "tree_at (cells \<lparr>cells = (\<lambda>a. None)(0 \<mapsto>
        \<lparr>c_kind = CHR ''V'', c_ch = CHR ''x'', c_num = Fin 0, c_l = None, c_r = None\<rparr>), nxt = 1\<rparr>)
     (Some 0) (makeVar (CHR ''x''))
   \<and> dom (cells \<lparr>cells = (\<lambda>a. None)(0 \<mapsto>
        \<lparr>c_kind = CHR ''V'', c_ch = CHR ''x'', c_num = Fin 0, c_l = None, c_r = None\<rparr>), nxt = 1\<rparr>)
       \<subseteq> {..<nxt \<lparr>cells = (\<lambda>a. None)(0 \<mapsto>
        \<lparr>c_kind = CHR ''V'', c_ch = CHR ''x'', c_num = Fin 0, c_l = None, c_r = None\<rparr>), nxt = 1\<rparr>}
   \<and> depth (makeVar (CHR ''x'')) < 2
   \<and> finiteNums (makeVar (CHR ''x''))
   \<and> (\<exists>q s'. cloneTreeH 2 \<lparr>cells = (\<lambda>a. None)(0 \<mapsto>
        \<lparr>c_kind = CHR ''V'', c_ch = CHR ''x'', c_num = Fin 0, c_l = None, c_r = None\<rparr>), nxt = 1\<rparr>
          (Some 0) = Some (q, s')
        \<and> tree_at (cells s') q (cloneTree (makeVar (CHR ''x'')))
        \<and> treesEqual (cloneTree (makeVar (CHR ''x''))) (makeVar (CHR ''x''))
        \<and> addrs (cells s') q (cloneTree (makeVar (CHR ''x'')))
            \<inter> addrs (cells s') (Some 0) (makeVar (CHR ''x'')) = {})"
proof -
  let ?s = "\<lparr>cells = (\<lambda>a. None)(0 \<mapsto>
        \<lparr>c_kind = CHR ''V'', c_ch = CHR ''x'', c_num = Fin 0, c_l = None, c_r = None\<rparr>), nxt = 1\<rparr>"
  have a: "tree_at (cells ?s) (Some 0) (makeVar (CHR ''x''))" by (simp add: makeVar_def)
  have b: "dom (cells ?s) \<subseteq> {..<nxt ?s}" by simp
  have c: "depth (makeVar (CHR ''x'')) < 2" by (simp add: makeVar_def)
  have d: "finiteNums (makeVar (CHR ''x''))" by (simp add: makeVar_def)
  from cloneTreeH_fresh_copy[OF a b c] a b c d show ?thesis by blast
qed

end
